theory Spec2Isabelle
  imports Main "HOL-Library.Word" "HOL-Library.AList"
begin

section \<open>Strings of the Go standard library\<close>

text \<open>
  A Go string is a sequence of bytes, here a \<^typ>\<open>string\<close> (one \<^typ>\<open>char\<close> per byte).

  \<^verbatim>\<open>strings.TrimSpace\<close> removes leading and trailing runes for which \<^verbatim>\<open>unicode.IsSpace\<close>
  holds. A rune is decoded from the front (or the back) of the byte sequence; a byte sequence
  that is no valid UTF-8 decodes to U+FFFD, which is no space. So a leading (trailing) white
  space rune is exactly a prefix (suffix) that is the UTF-8 encoding of one of:
  U+0009..U+000D, U+0020, U+0085, U+00A0, U+1680, U+2000..U+200A, U+2028, U+2029, U+202F,
  U+205F, U+3000.
\<close>

definition spaceRunes :: "string list" where
  "spaceRunes =
     map (\<lambda>c. [c]) [CHR 0x09, CHR 0x0A, CHR 0x0B, CHR 0x0C, CHR 0x0D, CHR 0x20] @
     [[CHR 0xC2, CHR 0x85], [CHR 0xC2, CHR 0xA0], [CHR 0xE1, CHR 0x9A, CHR 0x80]] @
     map (\<lambda>c. [CHR 0xE2, CHR 0x80, c])
       [CHR 0x80, CHR 0x81, CHR 0x82, CHR 0x83, CHR 0x84, CHR 0x85, CHR 0x86, CHR 0x87,
        CHR 0x88, CHR 0x89, CHR 0x8A, CHR 0xA8, CHR 0xA9, CHR 0xAF] @
     [[CHR 0xE2, CHR 0x81, CHR 0x9F], [CHR 0xE3, CHR 0x80, CHR 0x80]]"

text \<open>Strip, from the front, every encoded rune of \<open>pats\<close>.\<close>

fun stripLeading :: "string list \<Rightarrow> string \<Rightarrow> string" where
  "stripLeading pats [] = []"
| "stripLeading pats (c # cs) =
     (case List.find (\<lambda>p. p \<noteq> [] \<and> take (length p) (c # cs) = p) pats of
        None \<Rightarrow> c # cs
      | Some p \<Rightarrow> stripLeading pats (drop (length p - 1) cs))"

definition TrimSpace :: "string \<Rightarrow> string" where
  "TrimSpace s = rev (stripLeading (map rev spaceRunes) (rev (stripLeading spaceRunes s)))"

text \<open>\<^verbatim>\<open>strings.TrimRight(s, cutset)\<close> for a cutset of ASCII bytes.\<close>

definition TrimRight :: "string \<Rightarrow> string \<Rightarrow> string" where
  "TrimRight s cutset = rev (dropWhile (\<lambda>c. c \<in> set cutset) (rev s))"

text \<open>
  \<^verbatim>\<open>strings.ToUpper\<close>: a string of ASCII bytes only is mapped byte by byte
  (\<^verbatim>\<open>c -= 'a' - 'A'\<close> for \<^verbatim>\<open>'a' <= c <= 'z'\<close>); any other string goes through
  \<^verbatim>\<open>strings.Map(unicode.ToUpper, s)\<close>, which reads the Unicode case tables. Those tables are
  not part of this repository: the function \<open>mapUpper\<close> stands for that call.
\<close>

definition isASCII :: "char \<Rightarrow> bool" where
  "isASCII c = ((of_char c :: nat) < 128)"

definition asciiUpper :: "char \<Rightarrow> char" where
  "asciiUpper c =
     (case map_of (zip ''abcdefghijklmnopqrstuvwxyz'' ''ABCDEFGHIJKLMNOPQRSTUVWXYZ'') c of
        Some u \<Rightarrow> u
      | None \<Rightarrow> c)"

definition ToUpper :: "(string \<Rightarrow> string) \<Rightarrow> string \<Rightarrow> string" where
  "ToUpper mapUpper s = (if list_all isASCII s then map asciiUpper s else mapUpper s)"

section \<open>Errors\<close>

text \<open>
  One constructor for each error the adapter builds; the arguments are the values its
  format string receives.
\<close>

datatype ctx_error = Canceled | DeadlineExceeded

datatype transport_error = CtxFailure ctx_error | OtherFailure string

datatype knows_error =
    ApiKeyRequired                            \<comment> \<open>knows api_key is required\<close>
  | ApiBaseURLRequired                        \<comment> \<open>knows api_base_url is required\<close>
  | InvalidDefaultDataScope knows_error       \<comment> \<open>invalid knows default_data_scope: %w\<close>
  | DataScopeEmpty                            \<comment> \<open>data scope must be non-empty\<close>
  | UnsupportedDataScope string               \<comment> \<open>unsupported data scope %q; allowed: ...\<close>
  | AnswerTypeEmpty                           \<comment> \<open>answer_type must be non-empty\<close>
  | UnsupportedAnswerType string              \<comment> \<open>unsupported answer_type %q; allowed: ...\<close>
  | IsRequired string                         \<comment> \<open>%s is required\<close>
  | MustBeNonEmptyString string               \<comment> \<open>%s must be a non-empty string\<close>
  | MustBeArray string                        \<comment> \<open>%s must be an array\<close>
  | MustBeBoolean string                      \<comment> \<open>%s must be a boolean\<close>
  | ElemMustBeObject string nat               \<comment> \<open>requests[%d] must be an object (or evidences)\<close>
  | ElemInvalid string nat knows_error        \<comment> \<open>requests[%d]: %w (or evidences)\<close>
  | MustNotBeEmpty string                     \<comment> \<open>requests must not be empty (or evidences)\<close>
  | EncodeFailed string string                \<comment> \<open>failed to encode request for %s: %w\<close>
  | CreateRequestFailed string string         \<comment> \<open>failed to create request for %s: %w\<close>
  | RequestFailed string transport_error      \<comment> \<open>request to %s failed: %w\<close>
  | ReadResponseFailed string transport_error \<comment> \<open>failed to read response from %s: %w\<close>
  | StatusFailed string int string            \<comment> \<open>request to %s failed with status %d: %s\<close>
  | DecodeFailed string string                \<comment> \<open>failed to decode response from %s: %w\<close>
  | RequestGaveUp string                      \<comment> \<open>request to %s failed\<close>
  | ContextError ctx_error                    \<comment> \<open>ctx.Err()\<close>

section \<open>Enumerations\<close>

definition knowsAllowedDataScopes :: "string list" where
  "knowsAllowedDataScopes = [''PAPER'', ''PAPER_CN'', ''GUIDE'', ''MEETING'']"

definition knowsAllowedAnswerTypes :: "string list" where
  "knowsAllowedAnswerTypes = [''CLINICAL'', ''RESEARCH'', ''POPULAR_SCIENCE'']"

definition knowsAllDataScopes :: "string list" where
  "knowsAllDataScopes = [''PAPER'', ''PAPER_CN'', ''GUIDE'', ''MEETING'']"

definition normalizeDataScope :: "(string \<Rightarrow> string) \<Rightarrow> string \<Rightarrow> knows_error + string" where
  "normalizeDataScope mapUpper scope =
     (let normalized = ToUpper mapUpper (TrimSpace scope) in
      if normalized = [] then Inl DataScopeEmpty
      else if normalized \<notin> set knowsAllowedDataScopes then Inl (UnsupportedDataScope scope)
      else Inr normalized)"

definition normalizeAnswerType :: "(string \<Rightarrow> string) \<Rightarrow> string \<Rightarrow> knows_error + string" where
  "normalizeAnswerType mapUpper answerType =
     (let normalized = ToUpper mapUpper (TrimSpace answerType) in
      if normalized = [] then Inl AnswerTypeEmpty
      else if normalized \<notin> set knowsAllowedAnswerTypes
        then Inl (UnsupportedAnswerType answerType)
      else Inr normalized)"

text \<open>
  The loop of \<^verbatim>\<open>normalizeDataScopes\<close>, with its two variables: \<open>out\<close>, the slice built
  so far, and \<open>seen\<close>, the set of the values already appended.
\<close>

fun normalizeDataScopes_loop ::
  "(string \<Rightarrow> string) \<Rightarrow> string list \<Rightarrow> string set \<Rightarrow> string list \<Rightarrow> knows_error + string list"
where
  "normalizeDataScopes_loop mapUpper out seen [] = Inr out"
| "normalizeDataScopes_loop mapUpper out seen (scope # rest) =
     (case normalizeDataScope mapUpper scope of
        Inl err \<Rightarrow> Inl err
      | Inr normalized \<Rightarrow>
          if normalized \<in> seen then normalizeDataScopes_loop mapUpper out seen rest
          else normalizeDataScopes_loop mapUpper (out @ [normalized]) (insert normalized seen) rest)"

definition normalizeDataScopes ::
  "(string \<Rightarrow> string) \<Rightarrow> string list \<Rightarrow> knows_error + string list"
where
  "normalizeDataScopes mapUpper scopes =
     (if length scopes = 0 then Inr []
      else normalizeDataScopes_loop mapUpper [] {} scopes)"

section \<open>Dynamic values\<close>

text \<open>
  A value of type \<^verbatim>\<open>interface{}\<close> as the adapter meets it: in a call-argument bag, in a
  request payload and in a decoded response. \<open>GNumber\<close> stands for every numeric dynamic
  type (\<^verbatim>\<open>float64\<close>, \<^verbatim>\<open>int\<close>, \<^verbatim>\<open>int64\<close>, \<^verbatim>\<open>json.Number\<close>); \<open>GStrings\<close> is a
  \<^verbatim>\<open>[]string\<close>, \<open>GArray\<close> a \<^verbatim>\<open>[]interface{}\<close>. A \<^verbatim>\<open>map[string]interface{}\<close> is an
  association list read with \<^const>\<open>map_of\<close>.
\<close>

datatype gvalue =
    GNil
  | GBool bool
  | GNumber int
  | GString string
  | GStrings "string list"
  | GArray "gvalue list"
  | GObject "(string \<times> gvalue) list"

section \<open>The detail cache\<close>

text \<open>
  Times are nanoseconds on the clock of \<^verbatim>\<open>time.Now()\<close>, durations nanoseconds. Every
  operation of the cache runs under its mutex, so each is one atomic step on the state; the
  reading of the clock is an argument.

  The map \<^verbatim>\<open>entries\<close> is an association list holding one pair per key, so that its
  length is \<^verbatim>\<open>len(c.entries)\<close>; it is read with \<^const>\<open>map_of\<close> and written with
  \<^const>\<open>AList.update\<close> and \<^const>\<open>AList.delete\<close>. The field \<^verbatim>\<open>value\<close> of an entry
  is \<open>val\<close> here.
\<close>

record knowsCacheEntry =
  val :: gvalue
  expiresAt :: int

record knowsDetailCache =
  entries :: "(string \<times> knowsCacheEntry) list"
  order :: "string list"
  ttl :: int
  maxEntries :: int

text \<open>
  \<^verbatim>\<open>newKnowsDetailCache\<close> allocates the insertion order with
  \<^verbatim>\<open>make([]string, 0, maxEntries)\<close>. The Go runtime refuses a negative capacity and a
  capacity whose sixteen bytes per string exceed what it can allocate: \<^verbatim>\<open>make\<close> then
  panics (\<^verbatim>\<open>makeslice: cap out of range\<close>), or the process dies out of memory. Where that
  limit lies depends on the platform, so \<open>canMake n\<close> says whether the runtime carries out
  \<^verbatim>\<open>make([]string, 0, n)\<close>; \<open>Inl\<close> is the panic.
\<close>

datatype go_panic = MakesliceCapOutOfRange

definition newKnowsDetailCache ::
  "(int \<Rightarrow> bool) \<Rightarrow> int \<Rightarrow> int \<Rightarrow> go_panic + knowsDetailCache"
where
  "newKnowsDetailCache canMake t m =
     (if m < 0 \<or> \<not> canMake m then Inl MakesliceCapOutOfRange
      else Inr \<lparr>entries = [], order = [], ttl = t, maxEntries = m\<rparr>)"

definition deleteLocked :: "knowsDetailCache \<Rightarrow> string \<Rightarrow> knowsDetailCache" where
  "deleteLocked c key =
     c\<lparr>entries := AList.delete key (entries c), order := remove1 key (order c)\<rparr>"

text \<open>\<open>None\<close> is the result \<^verbatim>\<open>(nil, false)\<close>, \<open>Some v\<close> the result \<^verbatim>\<open>(v, true)\<close>.\<close>

definition knowsDetailCache_Get ::
  "knowsDetailCache \<Rightarrow> int \<Rightarrow> string \<Rightarrow> gvalue option \<times> knowsDetailCache"
where
  "knowsDetailCache_Get c now key =
     (case map_of (entries c) key of
        None \<Rightarrow> (None, c)
      | Some entry \<Rightarrow>
          if now > expiresAt entry then (None, deleteLocked c key)
          else (Some (val entry), c))"

text \<open>The eviction loop of \<^verbatim>\<open>Set\<close>, on the map and the insertion order.\<close>

fun evictOldest ::
  "int \<Rightarrow> (string \<times> knowsCacheEntry) list \<Rightarrow> string list
     \<Rightarrow> (string \<times> knowsCacheEntry) list \<times> string list"
where
  "evictOldest maxE es [] = (es, [])"
| "evictOldest maxE es (oldest # rest) =
     (if int (length es) \<ge> maxE then evictOldest maxE (AList.delete oldest es) rest
      else (es, oldest # rest))"

definition knowsDetailCache_Set ::
  "knowsDetailCache \<Rightarrow> int \<Rightarrow> string \<Rightarrow> gvalue \<Rightarrow> knowsDetailCache"
where
  "knowsDetailCache_Set c now key v =
     (if maxEntries c \<le> 0 then c
      else
        let (es, ord) =
              (if map_of (entries c) key = None
               then (case evictOldest (maxEntries c) (entries c) (order c) of
                       (es', ord') \<Rightarrow> (es', ord' @ [key]))
               else (entries c, order c))
        in c\<lparr>entries := AList.update key \<lparr>val = v, expiresAt = now + ttl c\<rparr> es,
              order := ord\<rparr>)"

text \<open>
  What the cache keeps true: the map has one entry per key, and the insertion order lists
  exactly the keys of the map, each once.
\<close>

definition cache_inv :: "knowsDetailCache \<Rightarrow> bool" where
  "cache_inv c \<longleftrightarrow>
     distinct (map fst (entries c)) \<and> distinct (order c)
     \<and> set (order c) = fst ` set (entries c)"

section \<open>Construction\<close>

text \<open>
  The numeric options are Go's \<^verbatim>\<open>int\<close> and \<^verbatim>\<open>time.Duration\<close> (nanoseconds); they are
  only compared with zero and copied, so they are integers here. \<open>httpTimeout\<close> is the
  \<^verbatim>\<open>Timeout\<close> of the client's \<^verbatim>\<open>httpClient\<close>.
\<close>

record KnowsToolOptions =
  APIKey :: string
  APIBaseURL :: string
  DefaultDataScope :: "string list"
  RequestTimeout :: int
  MaxRetries :: int
  RetryBackoff :: int
  BatchConcurrency :: int
  CacheTTL :: int
  CacheMaxEntries :: int

record knowsClient =
  baseURL :: string
  apiKey :: string
  httpTimeout :: int
  maxRetries :: int
  retryBackoff :: int
  cache :: knowsDetailCache

record knowsToolFactory =
  client :: knowsClient
  defaultDataScope :: "string list"
  batchConcurrency :: int

definition defaultKnowsRequestTimeout :: int where
  "defaultKnowsRequestTimeout = 120 * 1000000000"

definition defaultKnowsMaxRetries :: int where
  "defaultKnowsMaxRetries = 3"

definition defaultKnowsRetryBackoff :: int where
  "defaultKnowsRetryBackoff = 500 * 1000000"

definition defaultKnowsBatchLimit :: int where
  "defaultKnowsBatchLimit = 5"

definition defaultKnowsCacheTTL :: int where
  "defaultKnowsCacheTTL = 3600 * 1000000000"

definition defaultKnowsCacheEntries :: int where
  "defaultKnowsCacheEntries = 500"

text \<open>
  \<^verbatim>\<open>NewKnowsTools\<close> returns thirteen tools, each a closure over the same factory; the model
  returns that factory. The result is \<open>Inr (Inr f)\<close> when the factory \<open>f\<close> is built,
  \<open>Inr (Inl err)\<close> when the error \<open>err\<close> is returned, and \<open>Inl\<close> when the allocation of
  the cache panics; the three checks that return an error come before the allocation.
\<close>

definition NewKnowsTools ::
  "(string \<Rightarrow> string) \<Rightarrow> (int \<Rightarrow> bool) \<Rightarrow> KnowsToolOptions
     \<Rightarrow> go_panic + (knows_error + knowsToolFactory)"
where
  "NewKnowsTools mapUpper canMake opts =
     (let key = TrimSpace (APIKey opts) in
      if key = [] then Inr (Inl ApiKeyRequired)
      else
        let apiBase = TrimSpace (APIBaseURL opts) in
        if apiBase = [] then Inr (Inl ApiBaseURLRequired)
        else
          case normalizeDataScopes mapUpper (DefaultDataScope opts) of
            Inl err \<Rightarrow> Inr (Inl (InvalidDefaultDataScope err))
          | Inr scope \<Rightarrow>
              (case newKnowsDetailCache canMake
                      (if CacheTTL opts \<le> 0 then defaultKnowsCacheTTL else CacheTTL opts)
                      (if CacheMaxEntries opts \<le> 0 then defaultKnowsCacheEntries
                       else CacheMaxEntries opts) of
                 Inl p \<Rightarrow> Inl p
               | Inr cch \<Rightarrow>
                   Inr (Inr
                     \<lparr>client =
                        \<lparr>baseURL = TrimRight apiBase ''/'',
                         apiKey = key,
                         httpTimeout =
                           (if RequestTimeout opts \<le> 0 then defaultKnowsRequestTimeout
                            else RequestTimeout opts),
                         maxRetries =
                           (if MaxRetries opts < 0 then defaultKnowsMaxRetries
                            else MaxRetries opts),
                         retryBackoff =
                           (if RetryBackoff opts \<le> 0 then defaultKnowsRetryBackoff
                            else RetryBackoff opts),
                         cache = cch\<rparr>,
                      defaultDataScope =
                        (if length scope = 0 then knowsAllDataScopes else scope),
                      batchConcurrency =
                        (if BatchConcurrency opts \<le> 0 then defaultKnowsBatchLimit
                         else BatchConcurrency opts)\<rparr>)))"

section \<open>The HTTP client\<close>

text \<open>
  What one pass through the loop of \<^verbatim>\<open>postJSON\<close> meets:
  \<^item> \<open>NoRequest msg\<close>: \<^verbatim>\<open>http.NewRequestWithContext\<close> returned an error;
  \<^item> \<open>NoResponse err\<close>: \<^verbatim>\<open>httpClient.Do\<close> returned the error \<open>err\<close>;
  \<^item> \<open>BrokenBody status err\<close>: a response with that status arrived and reading its body
    failed with \<open>err\<close>;
  \<^item> \<open>Response status body decoded\<close>: a response whose body was read in full;
    \<open>decoded\<close> is what \<^verbatim>\<open>json.Unmarshal\<close> makes of \<open>body\<close> (\<open>Inl\<close> its error). The JSON
    decoder is not part of this repository, so the response carries its result.
  A \<^typ>\<open>transport_error\<close> records what \<^verbatim>\<open>errors.Is\<close> finds in the error:
  \<^verbatim>\<open>context.Canceled\<close>, \<^verbatim>\<open>context.DeadlineExceeded\<close>, or neither.
\<close>

datatype exchange =
    NoRequest string
  | NoResponse transport_error
  | BrokenBody int transport_error
  | Response int string "string + gvalue"

text \<open>Which case the \<^verbatim>\<open>select\<close> of \<^verbatim>\<open>waitRetry\<close> takes.\<close>

datatype wait_event = TimerFired | ContextDone ctx_error

definition truncateForError :: "string \<Rightarrow> int \<Rightarrow> string" where
  "truncateForError v max_len =
     (let v' = TrimSpace v in
      if max_len \<le> 0 \<or> int (length v') \<le> max_len then v'
      else take (nat max_len) v' @ ''...'')"

definition shouldRetry :: "knowsClient \<Rightarrow> int \<Rightarrow> int \<Rightarrow> transport_error option \<Rightarrow> bool" where
  "shouldRetry c attempt statusCode err =
     (if attempt \<ge> maxRetries c then False
      else case err of
             Some (CtxFailure e) \<Rightarrow> False
           | Some (OtherFailure msg) \<Rightarrow> True
           | None \<Rightarrow> statusCode \<ge> 500 \<and> statusCode \<le> 599)"

text \<open>
  The delay \<^verbatim>\<open>waitRetry\<close> arms its timer with. \<^verbatim>\<open>time.Duration\<close> is a signed 64-bit
  count of nanoseconds: the shift and the product are taken in 64 bits and wrap around,
  and the comparison with eight seconds is signed.
\<close>

definition retryDelay :: "int \<Rightarrow> int \<Rightarrow> int" where
  "retryDelay baseDelay attempt =
     (let delay = sint ((word_of_int baseDelay :: 64 word) * push_bit (nat attempt) 1) in
      if delay > 8 * 1000000000 then 8 * 1000000000 else delay)"

text \<open>The timer's duration, and the error returned (\<open>None\<close> for \<^verbatim>\<open>nil\<close>).\<close>

definition waitRetry :: "wait_event \<Rightarrow> int \<Rightarrow> int \<Rightarrow> int \<times> knows_error option" where
  "waitRetry ev baseDelay attempt =
     (retryDelay baseDelay attempt,
      case ev of ContextDone e \<Rightarrow> Some (ContextError e) | TimerFired \<Rightarrow> None)"

text \<open>Lines 1045 to 1060 of \<^verbatim>\<open>postJSON\<close>: what a 2xx response becomes.\<close>

definition unwrapResponse :: "string \<Rightarrow> string \<Rightarrow> string + gvalue \<Rightarrow> knows_error + gvalue" where
  "unwrapResponse path body decoded =
     (if length (TrimSpace body) = 0 then Inr (GObject [])
      else case decoded of
             Inl msg \<Rightarrow> Inl (DecodeFailed path msg)
           | Inr raw \<Rightarrow>
               (case raw of
                  GObject obj \<Rightarrow>
                    (case map_of obj ''data'' of
                       Some nested \<Rightarrow> if nested \<noteq> GNil then Inr nested else Inr raw
                     | None \<Rightarrow> Inr raw)
                | _ \<Rightarrow> Inr raw))"

text \<open>
  The retry loop. \<open>srv attempt\<close> is what pass number \<open>attempt\<close> meets and \<open>ctx attempt\<close>
  the outcome of the wait after it. The result is the number of passes made and the value
  returned.
\<close>

function postJSON_loop ::
  "knowsClient \<Rightarrow> string \<Rightarrow> (int \<Rightarrow> exchange) \<Rightarrow> (int \<Rightarrow> wait_event)
     \<Rightarrow> knows_error option \<Rightarrow> int \<Rightarrow> int \<times> (knows_error + gvalue)"
where
  "postJSON_loop c path srv ctx lastErr attempt =
     (if attempt \<le> maxRetries c then
        (case srv attempt of
           NoRequest msg \<Rightarrow> (attempt + 1, Inl (CreateRequestFailed path msg))
         | NoResponse err \<Rightarrow>
             if shouldRetry c attempt 0 (Some err) then
               (case snd (waitRetry (ctx attempt) (retryBackoff c) attempt) of
                  Some waitErr \<Rightarrow> (attempt + 1, Inl waitErr)
                | None \<Rightarrow>
                    postJSON_loop c path srv ctx (Some (RequestFailed path err)) (attempt + 1))
             else (attempt + 1, Inl (RequestFailed path err))
         | BrokenBody status readErr \<Rightarrow>
             if shouldRetry c attempt status (Some readErr) then
               (case snd (waitRetry (ctx attempt) (retryBackoff c) attempt) of
                  Some waitErr \<Rightarrow> (attempt + 1, Inl waitErr)
                | None \<Rightarrow>
                    postJSON_loop c path srv ctx (Some (ReadResponseFailed path readErr))
                      (attempt + 1))
             else (attempt + 1, Inl (ReadResponseFailed path readErr))
         | Response status body decoded \<Rightarrow>
             if status < 200 \<or> status \<ge> 300 then
               (if shouldRetry c attempt status None then
                  (case snd (waitRetry (ctx attempt) (retryBackoff c) attempt) of
                     Some waitErr \<Rightarrow> (attempt + 1, Inl waitErr)
                   | None \<Rightarrow>
                       postJSON_loop c path srv ctx
                         (Some (StatusFailed path status (truncateForError body 500)))
                         (attempt + 1))
                else (attempt + 1, Inl (StatusFailed path status (truncateForError body 500))))
             else (attempt + 1, unwrapResponse path body decoded))
      else (attempt, case lastErr of Some e \<Rightarrow> Inl e | None \<Rightarrow> Inl (RequestGaveUp path)))"
  by pat_completeness auto
termination
  by (relation "measure (\<lambda>(c, path, srv, ctx, lastErr, attempt). nat (maxRetries c + 1 - attempt))")
    auto

declare postJSON_loop.simps [simp del]


text \<open>
  What a pass must have met for the loop to go round again, in the words of the
  specification: a transport failure that is neither cancellation nor an exceeded
  deadline, or a status from 500 to 599.
\<close>

fun retryable :: "exchange \<Rightarrow> bool" where
  "retryable (NoRequest msg) = False"
| "retryable (NoResponse err) = (case err of CtxFailure e \<Rightarrow> False | OtherFailure msg \<Rightarrow> True)"
| "retryable (BrokenBody status err) =
     (case err of CtxFailure e \<Rightarrow> False | OtherFailure msg \<Rightarrow> True)"
| "retryable (Response status body decoded) = (500 \<le> status \<and> status \<le> 599)"

section \<open>Validation helpers\<close>

definition getRequiredString :: "(string \<times> gvalue) list \<Rightarrow> string \<Rightarrow> knows_error + string" where
  "getRequiredString args key =
     (case map_of args key of
        None \<Rightarrow> Inl (IsRequired key)
      | Some raw \<Rightarrow>
          (case raw of
             GString str \<Rightarrow>
               if TrimSpace str = [] then Inl (MustBeNonEmptyString key)
               else Inr (TrimSpace str)
           | _ \<Rightarrow> Inl (MustBeNonEmptyString key)))"

definition getRequiredArray ::
  "(string \<times> gvalue) list \<Rightarrow> string \<Rightarrow> knows_error + gvalue list"
where
  "getRequiredArray args key =
     (case map_of args key of
        None \<Rightarrow> Inl (IsRequired key)
      | Some raw \<Rightarrow> (case raw of GArray arr \<Rightarrow> Inr arr | _ \<Rightarrow> Inl (MustBeArray key)))"

text \<open>\<^verbatim>\<open>strconv.ParseBool\<close>: the strings it accepts are these twelve.\<close>

definition ParseBool :: "string \<Rightarrow> bool option" where
  "ParseBool str =
     (if str \<in> set [''1'', ''t'', ''T'', ''TRUE'', ''true'', ''True''] then Some True
      else if str \<in> set [''0'', ''f'', ''F'', ''FALSE'', ''false'', ''False''] then Some False
      else None)"

text \<open>A \<^verbatim>\<open>*bool\<close> is a \<^typ>\<open>bool option\<close>: \<open>None\<close> for \<^verbatim>\<open>nil\<close>.\<close>

definition getOptionalBoolPointer ::
  "(string \<times> gvalue) list \<Rightarrow> string \<Rightarrow> knows_error + bool option"
where
  "getOptionalBoolPointer args key =
     (case map_of args key of
        None \<Rightarrow> Inr None
      | Some raw \<Rightarrow>
          (case raw of
             GNil \<Rightarrow> Inr None
           | GBool v \<Rightarrow> Inr (Some v)
           | GString v \<Rightarrow>
               (case ParseBool (TrimSpace v) of
                  None \<Rightarrow> Inl (MustBeBoolean key)
                | Some parsed \<Rightarrow> Inr (Some parsed))
           | _ \<Rightarrow> Inl (MustBeBoolean key)))"

record knowsBatchAnswerRequest =
  QuestionID :: string
  AnswerType :: string

record knowsBatchEvidenceRequest =
  EvidenceID :: string
  Type :: string

text \<open>
  The loops of the two batch parsers: \<open>i\<close> is the index of the element at the head, \<open>out\<close>
  the slice built so far.
\<close>

fun parseBatchAnswerRequests_loop ::
  "(string \<Rightarrow> string) \<Rightarrow> nat \<Rightarrow> knowsBatchAnswerRequest list \<Rightarrow> gvalue list
     \<Rightarrow> knows_error + knowsBatchAnswerRequest list"
where
  "parseBatchAnswerRequests_loop mapUpper i out [] = Inr out"
| "parseBatchAnswerRequests_loop mapUpper i out (item # rest) =
     (case item of
        GObject m \<Rightarrow>
          (case getRequiredString m ''question_id'' of
             Inl err \<Rightarrow> Inl (ElemInvalid ''requests'' i err)
           | Inr questionID \<Rightarrow>
               (case getRequiredString m ''answer_type'' of
                  Inl err \<Rightarrow> Inl (ElemInvalid ''requests'' i err)
                | Inr answerType \<Rightarrow>
                    (case normalizeAnswerType mapUpper answerType of
                       Inl err \<Rightarrow> Inl (ElemInvalid ''requests'' i err)
                     | Inr normalized \<Rightarrow>
                         parseBatchAnswerRequests_loop mapUpper (Suc i)
                           (out @ [\<lparr>QuestionID = questionID, AnswerType = normalized\<rparr>])
                           rest)))
      | _ \<Rightarrow> Inl (ElemMustBeObject ''requests'' i))"

definition parseBatchAnswerRequests ::
  "(string \<Rightarrow> string) \<Rightarrow> (string \<times> gvalue) list
     \<Rightarrow> knows_error + knowsBatchAnswerRequest list"
where
  "parseBatchAnswerRequests mapUpper args =
     (case getRequiredArray args ''requests'' of
        Inl err \<Rightarrow> Inl err
      | Inr raw \<Rightarrow>
          (case parseBatchAnswerRequests_loop mapUpper 0 [] raw of
             Inl err \<Rightarrow> Inl err
           | Inr out \<Rightarrow>
               if length out = 0 then Inl (MustNotBeEmpty ''requests'') else Inr out))"

fun parseBatchEvidenceRequests_loop ::
  "(string \<Rightarrow> string) \<Rightarrow> nat \<Rightarrow> knowsBatchEvidenceRequest list \<Rightarrow> gvalue list
     \<Rightarrow> knows_error + knowsBatchEvidenceRequest list"
where
  "parseBatchEvidenceRequests_loop mapUpper i out [] = Inr out"
| "parseBatchEvidenceRequests_loop mapUpper i out (item # rest) =
     (case item of
        GObject m \<Rightarrow>
          (case getRequiredString m ''evidence_id'' of
             Inl err \<Rightarrow> Inl (ElemInvalid ''evidences'' i err)
           | Inr evidenceID \<Rightarrow>
               (case getRequiredString m ''type'' of
                  Inl err \<Rightarrow> Inl (ElemInvalid ''evidences'' i err)
                | Inr evidenceType \<Rightarrow>
                    (case normalizeDataScope mapUpper evidenceType of
                       Inl err \<Rightarrow> Inl (ElemInvalid ''evidences'' i err)
                     | Inr normalized \<Rightarrow>
                         parseBatchEvidenceRequests_loop mapUpper (Suc i)
                           (out @ [\<lparr>EvidenceID = evidenceID, Type = normalized\<rparr>])
                           rest)))
      | _ \<Rightarrow> Inl (ElemMustBeObject ''evidences'' i))"

definition parseBatchEvidenceRequests ::
  "(string \<Rightarrow> string) \<Rightarrow> (string \<times> gvalue) list
     \<Rightarrow> knows_error + knowsBatchEvidenceRequest list"
where
  "parseBatchEvidenceRequests mapUpper args =
     (case getRequiredArray args ''evidences'' of
        Inl err \<Rightarrow> Inl err
      | Inr raw \<Rightarrow>
          (case parseBatchEvidenceRequests_loop mapUpper 0 [] raw of
             Inl err \<Rightarrow> Inl err
           | Inr out \<Rightarrow>
               if length out = 0 then Inl (MustNotBeEmpty ''evidences'') else Inr out))"

section \<open>The batch operations\<close>

text \<open>
  One worker runs per sub-request; each sends its index and its result map on the channel
  once, and the handler reads the channel only after every worker has finished. So the
  channel holds one message per index, in the order in which the workers sent: that order,
  \<open>sched\<close>, is a permutation of the indices and an input of the model. The call a worker
  makes (\<^verbatim>\<open>client.answer\<close>, \<^verbatim>\<open>client.fetchEvidenceDetail\<close>) is an input too: \<open>Inl msg\<close>
  when it returned an error whose text is \<open>msg\<close>, \<open>Inr data\<close> when it returned \<open>data\<close>.

  The admission gate has \<open>batchConcurrency\<close> slots, at least one in every factory that
  \<^verbatim>\<open>NewKnowsTools\<close> builds: it delays workers, and changes neither what a worker computes
  nor that it finishes.

  A result map is an association list; \<open>None\<close> in the result slice is a \<^verbatim>\<open>nil\<close> map, the
  value of a slot no worker wrote. Every index on the channel comes from the \<^verbatim>\<open>range\<close>
  loop over the sub-requests, so it lies within the slice. The second component of a handler's result lists the
  calls the workers made.
\<close>

definition collectResults ::
  "nat \<Rightarrow> (nat \<times> (string \<times> gvalue) list) list \<Rightarrow> (string \<times> gvalue) list option list"
where
  "collectResults n ch =
     foldl (\<lambda>results (index, data). results[index := Some data]) (replicate n None) ch"

definition answerItem ::
  "knowsBatchAnswerRequest \<Rightarrow> string + gvalue \<Rightarrow> (string \<times> gvalue) list"
where
  "answerItem req outcome =
     [(''question_id'', GString (QuestionID req))] @
     (case outcome of
        Inl msg \<Rightarrow> [(''status'', GString ''error''), (''error'', GString msg)]
      | Inr data \<Rightarrow> [(''status'', GString ''success''), (''data'', data)])"

definition batchAnswer_handler ::
  "(string \<Rightarrow> string) \<Rightarrow> (nat \<Rightarrow> knowsBatchAnswerRequest \<Rightarrow> string + gvalue) \<Rightarrow> nat list
     \<Rightarrow> (string \<times> gvalue) list
     \<Rightarrow> (knows_error + (string \<times> gvalue) list option list)
         \<times> (nat \<times> knowsBatchAnswerRequest) list"
where
  "batchAnswer_handler mapUpper answer sched args =
     (case parseBatchAnswerRequests mapUpper args of
        Inl err \<Rightarrow> (Inl err, [])
      | Inr requests \<Rightarrow>
          (Inr (collectResults (length requests)
                  (map (\<lambda>i. (i, answerItem (requests ! i) (answer i (requests ! i)))) sched)),
           map (\<lambda>i. (i, requests ! i)) sched))"

definition evidenceItem ::
  "knowsBatchEvidenceRequest \<Rightarrow> string + gvalue \<Rightarrow> (string \<times> gvalue) list"
where
  "evidenceItem item outcome =
     [(''evidence_id'', GString (EvidenceID item)), (''type'', GString (Type item))] @
     (case outcome of
        Inl msg \<Rightarrow> [(''status'', GString ''error''), (''error'', GString msg)]
      | Inr data \<Rightarrow> [(''status'', GString ''success''), (''data'', data)])"

definition batchGetEvidenceDetails_handler ::
  "(string \<Rightarrow> string)
     \<Rightarrow> (nat \<Rightarrow> knowsBatchEvidenceRequest \<Rightarrow> bool option \<Rightarrow> string + gvalue) \<Rightarrow> nat list
     \<Rightarrow> (string \<times> gvalue) list
     \<Rightarrow> (knows_error + (string \<times> gvalue) list option list)
         \<times> (nat \<times> knowsBatchEvidenceRequest) list"
where
  "batchGetEvidenceDetails_handler mapUpper fetch sched args =
     (case parseBatchEvidenceRequests mapUpper args of
        Inl err \<Rightarrow> (Inl err, [])
      | Inr evidences \<Rightarrow>
          (case getOptionalBoolPointer args ''translate_to_chinese'' of
             Inl err \<Rightarrow> (Inl err, [])
           | Inr translate \<Rightarrow>
               (Inr (collectResults (length evidences)
                       (map (\<lambda>i. (i, evidenceItem (evidences ! i)
                                       (fetch i (evidences ! i) translate))) sched)),
                map (\<lambda>i. (i, evidences ! i)) sched)))"

section \<open>Cached lookups\<close>

text \<open>The verb \<^verbatim>\<open>%t\<close> of \<^verbatim>\<open>fmt.Sprintf\<close>.\<close>

definition formatBool :: "bool \<Rightarrow> string" where
  "formatBool b = (if b then ''true'' else ''false'')"

text \<open>
  \<^verbatim>\<open>getPaperEN\<close>, \<^verbatim>\<open>getGuide\<close> and \<^verbatim>\<open>getMeeting\<close>. The cache key is
  \<^verbatim>\<open>fmt.Sprintf("PAPER:%s:%t", evidenceID, translateKey)\<close> (with the prefix of each
  function); the payload is the Go map as the list of its fields, \<^verbatim>\<open>translate_to_chinese\<close>
  present only when the pointer is not nil. \<open>post path payload\<close> is what \<^verbatim>\<open>c.postJSON\<close>
  returns for that request; \<open>tGet\<close> and \<open>tSet\<close> are the clock readings inside
  \<^verbatim>\<open>cache.Get\<close> and \<^verbatim>\<open>cache.Set\<close>. The result is the value returned, the client with its
  cache as the call leaves it, and the requests posted.
\<close>

definition getPaperEN ::
  "knowsClient \<Rightarrow> int \<Rightarrow> int \<Rightarrow> (string \<Rightarrow> (string \<times> gvalue) list \<Rightarrow> knows_error + gvalue)
     \<Rightarrow> string \<Rightarrow> bool option
     \<Rightarrow> (knows_error + gvalue) \<times> knowsClient \<times> (string \<times> (string \<times> gvalue) list) list"
where
  "getPaperEN c tGet tSet post evidenceID translate =
     (let translateKey = (case translate of None \<Rightarrow> False | Some b \<Rightarrow> b);
          cacheKey = ''PAPER:'' @ evidenceID @ '':'' @ formatBool translateKey
      in
      case knowsDetailCache_Get (cache c) tGet cacheKey of
        (Some cached, cch) \<Rightarrow> (Inr cached, c\<lparr>cache := cch\<rparr>, [])
      | (None, cch) \<Rightarrow>
          let payload =
                [(''evidence_id'', GString evidenceID)] @
                (case translate of
                   None \<Rightarrow> []
                 | Some b \<Rightarrow> [(''translate_to_chinese'', GBool b)])
          in
          (case post ''/knows/evidence/get_paper_en'' payload of
             Inl err \<Rightarrow>
               (Inl err, c\<lparr>cache := cch\<rparr>, [(''/knows/evidence/get_paper_en'', payload)])
           | Inr data \<Rightarrow>
               (Inr data, c\<lparr>cache := knowsDetailCache_Set cch tSet cacheKey data\<rparr>,
                [(''/knows/evidence/get_paper_en'', payload)])))"

definition getGuide ::
  "knowsClient \<Rightarrow> int \<Rightarrow> int \<Rightarrow> (string \<Rightarrow> (string \<times> gvalue) list \<Rightarrow> knows_error + gvalue)
     \<Rightarrow> string \<Rightarrow> bool option
     \<Rightarrow> (knows_error + gvalue) \<times> knowsClient \<times> (string \<times> (string \<times> gvalue) list) list"
where
  "getGuide c tGet tSet post evidenceID translate =
     (let translateKey = (case translate of None \<Rightarrow> False | Some b \<Rightarrow> b);
          cacheKey = ''GUIDE:'' @ evidenceID @ '':'' @ formatBool translateKey
      in
      case knowsDetailCache_Get (cache c) tGet cacheKey of
        (Some cached, cch) \<Rightarrow> (Inr cached, c\<lparr>cache := cch\<rparr>, [])
      | (None, cch) \<Rightarrow>
          let payload =
                [(''evidence_id'', GString evidenceID)] @
                (case translate of
                   None \<Rightarrow> []
                 | Some b \<Rightarrow> [(''translate_to_chinese'', GBool b)])
          in
          (case post ''/knows/evidence/get_guide'' payload of
             Inl err \<Rightarrow>
               (Inl err, c\<lparr>cache := cch\<rparr>, [(''/knows/evidence/get_guide'', payload)])
           | Inr data \<Rightarrow>
               (Inr data, c\<lparr>cache := knowsDetailCache_Set cch tSet cacheKey data\<rparr>,
                [(''/knows/evidence/get_guide'', payload)])))"

definition getMeeting ::
  "knowsClient \<Rightarrow> int \<Rightarrow> int \<Rightarrow> (string \<Rightarrow> (string \<times> gvalue) list \<Rightarrow> knows_error + gvalue)
     \<Rightarrow> string \<Rightarrow> bool option
     \<Rightarrow> (knows_error + gvalue) \<times> knowsClient \<times> (string \<times> (string \<times> gvalue) list) list"
where
  "getMeeting c tGet tSet post evidenceID translate =
     (let translateKey = (case translate of None \<Rightarrow> False | Some b \<Rightarrow> b);
          cacheKey = ''MEETING:'' @ evidenceID @ '':'' @ formatBool translateKey
      in
      case knowsDetailCache_Get (cache c) tGet cacheKey of
        (Some cached, cch) \<Rightarrow> (Inr cached, c\<lparr>cache := cch\<rparr>, [])
      | (None, cch) \<Rightarrow>
          let payload =
                [(''evidence_id'', GString evidenceID)] @
                (case translate of
                   None \<Rightarrow> []
                 | Some b \<Rightarrow> [(''translate_to_chinese'', GBool b)])
          in
          (case post ''/knows/evidence/get_meeting'' payload of
             Inl err \<Rightarrow>
               (Inl err, c\<lparr>cache := cch\<rparr>, [(''/knows/evidence/get_meeting'', payload)])
           | Inr data \<Rightarrow>
               (Inr data, c\<lparr>cache := knowsDetailCache_Set cch tSet cacheKey data\<rparr>,
                [(''/knows/evidence/get_meeting'', payload)])))"

section \<open>Normalizing a list of data scopes\<close>

lemma normalizeDataScope_allowed:
  "normalizeDataScope mapUpper scope = Inr n \<Longrightarrow>
     n \<in> set knowsAllowedDataScopes \<and> n = ToUpper mapUpper (TrimSpace scope)"
  by (auto simp: normalizeDataScope_def Let_def split: if_splits)

lemma TrimSpace_allowed:
  "n \<in> set knowsAllowedDataScopes \<Longrightarrow> TrimSpace n = n"
  by (auto simp: knowsAllowedDataScopes_def TrimSpace_def spaceRunes_def)

lemma ToUpper_allowed:
  "n \<in> set knowsAllowedDataScopes \<Longrightarrow> ToUpper mapUpper n = n"
  by (auto simp: knowsAllowedDataScopes_def ToUpper_def isASCII_def asciiUpper_def)

lemma normalizeDataScope_fixed:
  assumes "n \<in> set knowsAllowedDataScopes"
  shows "normalizeDataScope mapUpper n = Inr n"
proof -
  have "ToUpper mapUpper (TrimSpace n) = n"
    using assms by (simp add: TrimSpace_allowed ToUpper_allowed)
  moreover have "n \<noteq> []"
    using assms by (auto simp: knowsAllowedDataScopes_def)
  ultimately show ?thesis
    using assms by (simp add: normalizeDataScope_def)
qed

lemma remdups_append_seen:
  "n \<in> set ys \<Longrightarrow> remdups (xs @ n # ys) = remdups (xs @ ys)"
  by (induction xs) auto

lemma normalizeDataScopes_loop_allowed:
  assumes "normalizeDataScopes_loop mapUpper out seen scopes = Inr res"
  shows "set res \<subseteq> set out \<union> set knowsAllowedDataScopes"
  using assms
proof (induction scopes arbitrary: out seen)
  case Nil
  then show ?case by auto
next
  case (Cons scope rest)
  from Cons.prems obtain n where n: "normalizeDataScope mapUpper scope = Inr n"
    by (cases "normalizeDataScope mapUpper scope") auto
  then have allowed: "n \<in> set knowsAllowedDataScopes"
    using normalizeDataScope_allowed by blast
  show ?case
  proof (cases "n \<in> seen")
    case True
    with Cons.prems n have "normalizeDataScopes_loop mapUpper out seen rest = Inr res"
      by simp
    from Cons.IH [OF this] show ?thesis .
  next
    case False
    with Cons.prems n
    have "normalizeDataScopes_loop mapUpper (out @ [n]) (insert n seen) rest = Inr res"
      by simp
    from Cons.IH [OF this] allowed show ?thesis by auto
  qed
qed

lemma normalizeDataScopes_loop_result:
  assumes "normalizeDataScopes_loop mapUpper out seen scopes = Inr res"
    and "seen = set out" and "distinct out"
  shows "res = rev (remdups (rev (out @ map (\<lambda>s. ToUpper mapUpper (TrimSpace s)) scopes)))"
  using assms
proof (induction scopes arbitrary: out seen)
  case Nil
  then show ?case by (simp add: distinct_remdups_id)
next
  case (Cons scope rest)
  from Cons.prems(1) obtain n where n: "normalizeDataScope mapUpper scope = Inr n"
    by (cases "normalizeDataScope mapUpper scope") auto
  then have n_eq: "n = ToUpper mapUpper (TrimSpace scope)"
    using normalizeDataScope_allowed by blast
  show ?case
  proof (cases "n \<in> seen")
    case True
    with Cons.prems n have "normalizeDataScopes_loop mapUpper out seen rest = Inr res"
      by simp
    from Cons.IH [OF this Cons.prems(2,3)]
    have "res = rev (remdups (rev (out @ map (\<lambda>s. ToUpper mapUpper (TrimSpace s)) rest)))" .
    moreover have "n \<in> set (rev out)"
      using True Cons.prems(2) by simp
    ultimately show ?thesis
      by (simp add: n_eq [symmetric] remdups_append_seen)
  next
    case False
    with Cons.prems n
    have run: "normalizeDataScopes_loop mapUpper (out @ [n]) (insert n seen) rest = Inr res"
      by simp
    have "insert n seen = set (out @ [n])" "distinct (out @ [n])"
      using False Cons.prems(2,3) by auto
    from Cons.IH [OF run this] show ?thesis
      by (simp add: n_eq [symmetric])
  qed
qed

lemma normalizeDataScopes_loop_fixed:
  assumes "\<forall>n \<in> set scopes. n \<in> set knowsAllowedDataScopes"
    and "distinct (out @ scopes)" and "seen = set out"
  shows "normalizeDataScopes_loop mapUpper out seen scopes = Inr (out @ scopes)"
  using assms
proof (induction scopes arbitrary: out seen)
  case Nil
  then show ?case by simp
next
  case (Cons n rest)
  have fixed: "normalizeDataScope mapUpper n = Inr n"
    using Cons.prems(1) by (simp add: normalizeDataScope_fixed)
  have fresh: "n \<notin> seen"
    using Cons.prems(2,3) by auto
  have "normalizeDataScopes_loop mapUpper (out @ [n]) (insert n seen) rest
          = Inr ((out @ [n]) @ rest)"
    using Cons.prems by (intro Cons.IH) auto
  with fixed fresh show ?case by simp
qed

text \<open>
  C10. A list of scopes that all normalize gives a list without duplicates, of allowed
  scopes only, holding the normalized values (trimmed, then uppercased) in the order of
  their first occurrence; normalizing that list again returns it.
\<close>

theorem normalizeDataScopes_dedup_idempotent:
  assumes "normalizeDataScopes mapUpper scopes = Inr out"
  shows "distinct out
       \<and> set out \<subseteq> set knowsAllowedDataScopes
       \<and> out = rev (remdups (rev (map (\<lambda>s. ToUpper mapUpper (TrimSpace s)) scopes)))
       \<and> normalizeDataScopes mapUpper out = Inr out"
proof (cases "scopes = []")
  case True
  with assms show ?thesis by (simp add: normalizeDataScopes_def)
next
  case False
  with assms have run: "normalizeDataScopes_loop mapUpper [] {} scopes = Inr out"
    by (simp add: normalizeDataScopes_def)
  have shape: "out = rev (remdups (rev (map (\<lambda>s. ToUpper mapUpper (TrimSpace s)) scopes)))"
    using normalizeDataScopes_loop_result [OF run] by simp
  have allowed: "set out \<subseteq> set knowsAllowedDataScopes"
    using normalizeDataScopes_loop_allowed [OF run] by simp
  have dist: "distinct out"
    by (subst shape) simp
  have "normalizeDataScopes_loop mapUpper [] {} out = Inr ([] @ out)"
    using allowed dist by (intro normalizeDataScopes_loop_fixed) auto
  then have "normalizeDataScopes mapUpper out = Inr out"
    by (simp add: normalizeDataScopes_def)
  with dist allowed shape show ?thesis by simp
qed

theorem normalizeDataScopes_dedup_idempotent_witness:
  "normalizeDataScopes (\<lambda>s. s) ['' paper '', ''GUIDE'', ''Paper''] = Inr [''PAPER'', ''GUIDE'']
   \<and> distinct [''PAPER'', ''GUIDE'']
   \<and> normalizeDataScopes (\<lambda>s. s) [''PAPER'', ''GUIDE''] = Inr [''PAPER'', ''GUIDE'']"
proof -
  have run: "normalizeDataScopes (\<lambda>s. s) ['' paper '', ''GUIDE'', ''Paper'']
               = Inr [''PAPER'', ''GUIDE'']"
    by (simp add: normalizeDataScopes_def normalizeDataScope_def TrimSpace_def spaceRunes_def
        ToUpper_def isASCII_def asciiUpper_def knowsAllowedDataScopes_def)
  from normalizeDataScopes_dedup_idempotent [OF run] run show ?thesis
    by blast
qed

section \<open>The detail cache: what Get and Set do\<close>

lemma delete_absent:
  "k \<notin> fst ` set es \<Longrightarrow> AList.delete k es = es"
  by (induction es) (auto simp: AList.delete_eq)

lemma length_delete_present:
  "distinct (map fst es) \<Longrightarrow> k \<in> fst ` set es \<Longrightarrow> Suc (length (AList.delete k es)) = length es"
proof (induction es)
  case Nil
  then show ?case by simp
next
  case (Cons e es)
  show ?case
  proof (cases "fst e = k")
    case True
    with Cons.prems have "k \<notin> fst ` set es" by auto
    then have "AList.delete k es = es" by (rule delete_absent)
    with True show ?thesis by (cases e) simp
  next
    case False
    with Cons show ?thesis by (cases e) auto
  qed
qed

lemma keys_delete: "fst ` set (AList.delete k es) = fst ` set es - {k}"
  by (induction es) (auto simp: AList.delete_eq)

lemma keys_update: "fst ` set (AList.update k v es) = insert k (fst ` set es)"
  by (induction es) auto

lemma map_of_None_keys: "map_of es k = None \<longleftrightarrow> k \<notin> fst ` set es"
  by (simp add: map_of_eq_None_iff)

lemma length_update_absent:
  "k \<notin> fst ` set es \<Longrightarrow> length (AList.update k v es) = Suc (length es)"
  by (induction es) auto

lemma length_update_present:
  "k \<in> fst ` set es \<Longrightarrow> length (AList.update k v es) = length es"
  by (induction es) auto

lemma evictOldest_inv:
  assumes "evictOldest m es ord = (es', ord')"
    and "distinct (map fst es)" and "distinct ord" and "set ord = fst ` set es"
  shows "distinct (map fst es') \<and> distinct ord' \<and> set ord' = fst ` set es'
       \<and> fst ` set es' \<subseteq> fst ` set es \<and> (0 < m \<longrightarrow> int (length es') < m)"
  using assms
proof (induction m es ord rule: evictOldest.induct)
  case (1 maxE es)
  then show ?case by auto
next
  case (2 maxE es oldest rest)
  show ?case
  proof (cases "int (length es) \<ge> maxE")
    case True
    with "2.prems" have run: "evictOldest maxE (AList.delete oldest es) rest = (es', ord')"
      by simp
    have "distinct (map fst (AList.delete oldest es))"
      using "2.prems" by (simp add: distinct_delete)
    moreover have "distinct rest" using "2.prems" by simp
    moreover have "set rest = fst ` set (AList.delete oldest es)"
      using "2.prems" by (auto simp: keys_delete)
    ultimately show ?thesis
      using "2.IH" [OF True run] by (auto simp: keys_delete)
  next
    case False
    with "2.prems" show ?thesis by auto
  qed
qed

lemma evictOldest_full:
  assumes "distinct (map fst es)" and "oldest \<in> fst ` set es"
    and "int (length es) = m" and "0 < m"
  shows "evictOldest m es (oldest # rest) = (AList.delete oldest es, rest)"
proof -
  have "int (length (AList.delete oldest es)) < m"
    using length_delete_present [OF assms(1,2)] assms(3) by simp
  then have "evictOldest m (AList.delete oldest es) rest = (AList.delete oldest es, rest)"
    by (cases rest) auto
  with assms(3) show ?thesis by simp
qed

lemma cache_inv_new:
  "newKnowsDetailCache canMake t m = Inr c \<Longrightarrow>
     cache_inv c \<and> c = \<lparr>entries = [], order = [], ttl = t, maxEntries = m\<rparr>"
  by (auto simp: cache_inv_def newKnowsDetailCache_def split: if_splits)

lemma cache_inv_Set:
  assumes "cache_inv c"
  shows "cache_inv (knowsDetailCache_Set c now key v)"
proof (cases "maxEntries c \<le> 0")
  case True
  with assms show ?thesis by (simp add: knowsDetailCache_Set_def)
next
  case pos: False
  show ?thesis
  proof (cases "map_of (entries c) key = None")
    case True
    obtain es' ord' where ev: "evictOldest (maxEntries c) (entries c) (order c) = (es', ord')"
      by (cases "evictOldest (maxEntries c) (entries c) (order c)")
    from evictOldest_inv [OF ev] assms
    have inv': "distinct (map fst es')" "distinct ord'" "set ord' = fst ` set es'"
      "fst ` set es' \<subseteq> fst ` set (entries c)"
      by (auto simp: cache_inv_def)
    have "key \<notin> fst ` set es'"
      using True inv'(4) by (auto simp: map_of_None_keys)
    with inv' pos True ev show ?thesis
      by (auto simp: knowsDetailCache_Set_def cache_inv_def distinct_update keys_update)
  next
    case False
    then have "key \<in> fst ` set (entries c)" by (simp add: map_of_None_keys)
    with assms pos False show ?thesis
      by (auto simp: knowsDetailCache_Set_def cache_inv_def distinct_update keys_update)
  qed
qed

lemma cache_inv_Get:
  assumes "cache_inv c"
  shows "cache_inv (snd (knowsDetailCache_Get c now key))"
  using assms
  by (auto simp: knowsDetailCache_Get_def deleteLocked_def cache_inv_def distinct_delete
      keys_delete split: option.splits)

lemma Set_size_bound:
  assumes "cache_inv c" and "0 < maxEntries c"
    and "int (length (entries c)) \<le> maxEntries c"
  shows "int (length (entries (knowsDetailCache_Set c now key v))) \<le> maxEntries c"
proof (cases "map_of (entries c) key = None")
  case True
  obtain es' ord' where ev: "evictOldest (maxEntries c) (entries c) (order c) = (es', ord')"
    by (cases "evictOldest (maxEntries c) (entries c) (order c)")
  from evictOldest_inv [OF ev] assms
  have small: "int (length es') < maxEntries c"
    and sub: "fst ` set es' \<subseteq> fst ` set (entries c)"
    by (auto simp: cache_inv_def)
  have "key \<notin> fst ` set es'"
    using True sub by (auto simp: map_of_None_keys)
  with small True ev assms(2) show ?thesis
    by (simp add: knowsDetailCache_Set_def length_update_absent)
next
  case False
  then have present: "key \<in> fst ` set (entries c)" by (simp add: map_of_None_keys)
  from False obtain e where "map_of (entries c) key = Some e" by auto
  with present assms show ?thesis
    by (simp add: knowsDetailCache_Set_def length_update_present)
qed

lemma Set_then_Get:
  assumes "0 < maxEntries c" and "now' \<le> now + ttl c"
  shows "knowsDetailCache_Get (knowsDetailCache_Set c now key v) now' key
           = (Some v, knowsDetailCache_Set c now key v)"
  using assms
  by (auto simp: knowsDetailCache_Get_def knowsDetailCache_Set_def update_conv'
      split: prod.splits)


lemma Set_full_new_key:
  assumes "cache_inv c" and "0 < maxEntries c"
    and "int (length (entries c)) = maxEntries c" and "map_of (entries c) key = None"
  shows "\<exists>oldest rest. order c = oldest # rest
           \<and> knowsDetailCache_Set c now key v =
               c\<lparr>entries := AList.update key \<lparr>val = v, expiresAt = now + ttl c\<rparr>
                              (AList.delete oldest (entries c)),
                 order := rest @ [key]\<rparr>
           \<and> int (length (entries (knowsDetailCache_Set c now key v))) = maxEntries c"
proof -
  have "entries c \<noteq> []" using assms(2,3) by auto
  then have "order c \<noteq> []" using assms(1) by (auto simp: cache_inv_def)
  then obtain oldest rest where ord: "order c = oldest # rest"
    by (cases "order c") auto
  have dist: "distinct (map fst (entries c))" and old: "oldest \<in> fst ` set (entries c)"
    using assms(1) ord by (auto simp: cache_inv_def)
  have ev: "evictOldest (maxEntries c) (entries c) (order c)
              = (AList.delete oldest (entries c), rest)"
    unfolding ord using dist old assms(3,2) by (rule evictOldest_full)
  have fresh: "key \<notin> fst ` set (AList.delete oldest (entries c))"
    using assms(4) by (auto simp: keys_delete map_of_None_keys)
  have "Suc (length (AList.delete oldest (entries c))) = length (entries c)"
    using dist old by (rule length_delete_present)
  with fresh assms(3)
  have len: "int (length (AList.update key \<lparr>val = v, expiresAt = now + ttl c\<rparr>
                      (AList.delete oldest (entries c)))) = maxEntries c"
    by (simp add: length_update_absent)
  have "knowsDetailCache_Set c now key v =
          c\<lparr>entries := AList.update key \<lparr>val = v, expiresAt = now + ttl c\<rparr>
                         (AList.delete oldest (entries c)),
            order := rest @ [key]\<rparr>"
    using assms(2,4) ev by (simp add: knowsDetailCache_Set_def)
  with ord len show ?thesis by simp
qed

lemma Set_existing_key:
  assumes "0 < maxEntries c" and "map_of (entries c) key = Some e"
  shows "knowsDetailCache_Set c now key v =
           c\<lparr>entries := AList.update key \<lparr>val = v, expiresAt = now + ttl c\<rparr> (entries c)\<rparr>"
  using assms by (simp add: knowsDetailCache_Set_def)

lemma Get_expired:
  assumes "cache_inv c" and "map_of (entries c) key = Some e" and "expiresAt e < now"
  shows "knowsDetailCache_Get c now key = (None, deleteLocked c key)"
    and "map_of (entries (deleteLocked c key)) key = None"
    and "key \<notin> set (order (deleteLocked c key))"
    and "Suc (length (entries (deleteLocked c key))) = length (entries c)"
proof -
  show "knowsDetailCache_Get c now key = (None, deleteLocked c key)"
    using assms(2,3) by (simp add: knowsDetailCache_Get_def)
  show "map_of (entries (deleteLocked c key)) key = None"
    by (simp add: deleteLocked_def delete_conv')
  show "key \<notin> set (order (deleteLocked c key))"
    using assms(1) by (simp add: deleteLocked_def cache_inv_def)
  have "key \<in> fst ` set (entries c)"
    using assms(2) by (metis map_of_None_keys option.distinct(1))
  then show "Suc (length (entries (deleteLocked c key))) = length (entries c)"
    using assms(1) by (simp add: deleteLocked_def cache_inv_def length_delete_present)
qed

lemma Get_hit:
  assumes "knowsDetailCache_Get c now key = (Some v, c')"
  shows "c' = c \<and> (\<exists>e. map_of (entries c) key = Some e \<and> val e = v \<and> now \<le> expiresAt e)"
  using assms by (auto simp: knowsDetailCache_Get_def split: option.splits if_splits)

text \<open>
  C3 (as amended). On a cache that stores at all (\<open>maxEntries > 0\<close>), a \<open>Get\<close> of a key
  just set returns the value as long as the clock has not passed the entry's expiry
  (set time plus TTL). Once the clock has passed it, \<open>Get\<close> reports the key as absent and
  removes it from the map and from the insertion order, after which the map holds one entry
  less. No \<open>Get\<close> returns a value whose expiry the clock has passed. An expired entry that
  no \<open>Get\<close> has touched is still stored, and counted by \<open>Set\<close>.
\<close>

theorem cache_get_after_set:
  "(0 < maxEntries c \<and> now' \<le> now + ttl c \<longrightarrow>
      knowsDetailCache_Get (knowsDetailCache_Set c now k v) now' k
        = (Some v, knowsDetailCache_Set c now k v))
   \<and> (0 < maxEntries c \<and> now + ttl c < now' \<and> cache_inv c \<longrightarrow>
        (\<exists>c'. knowsDetailCache_Get (knowsDetailCache_Set c now k v) now' k = (None, c')
           \<and> map_of (entries c') k = None \<and> k \<notin> set (order c')
           \<and> Suc (length (entries c')) = length (entries (knowsDetailCache_Set c now k v))))
   \<and> (knowsDetailCache_Get c0 t k0 = (Some v0, c1) \<longrightarrow>
        (\<exists>e. map_of (entries c0) k0 = Some e \<and> val e = v0 \<and> \<not> expiresAt e < t))"
proof (intro conjI impI)
  assume "0 < maxEntries c \<and> now' \<le> now + ttl c"
  then show "knowsDetailCache_Get (knowsDetailCache_Set c now k v) now' k
               = (Some v, knowsDetailCache_Set c now k v)"
    by (simp add: Set_then_Get)
next
  assume a: "0 < maxEntries c \<and> now + ttl c < now' \<and> cache_inv c"
  let ?c = "knowsDetailCache_Set c now k v"
  have inv: "cache_inv ?c" using a by (simp add: cache_inv_Set)
  have e: "map_of (entries ?c) k = Some \<lparr>val = v, expiresAt = now + ttl c\<rparr>"
    using a by (auto simp: knowsDetailCache_Set_def update_conv' split: prod.splits)
  have "expiresAt \<lparr>val = v, expiresAt = now + ttl c\<rparr> < now'" using a by simp
  from Get_expired [OF inv e this]
  show "\<exists>c'. knowsDetailCache_Get ?c now' k = (None, c')
           \<and> map_of (entries c') k = None \<and> k \<notin> set (order c')
           \<and> Suc (length (entries c')) = length (entries ?c)"
    by blast
next
  assume "knowsDetailCache_Get c0 t k0 = (Some v0, c1)"
  from Get_hit [OF this]
  show "\<exists>e. map_of (entries c0) k0 = Some e \<and> val e = v0 \<and> \<not> expiresAt e < t"
    by auto
qed

theorem cache_get_after_set_witness:
  "knowsDetailCache_Get (knowsDetailCache_Set \<lparr>entries = [], order = [], ttl = 10, maxEntries = 2\<rparr> 0 ''a'' (GString ''x'')) 10 ''a''
     = (Some (GString ''x''), knowsDetailCache_Set \<lparr>entries = [], order = [], ttl = 10, maxEntries = 2\<rparr> 0 ''a'' (GString ''x''))
   \<and> fst (knowsDetailCache_Get (knowsDetailCache_Set \<lparr>entries = [], order = [], ttl = 10, maxEntries = 2\<rparr> 0 ''a'' (GString ''x'')) 11 ''a'')
       = None
   \<and> entries (snd (knowsDetailCache_Get (knowsDetailCache_Set \<lparr>entries = [], order = [], ttl = 10, maxEntries = 2\<rparr> 0 ''a'' (GString ''x'')) 11 ''a''))
       = []"
proof -
  have pos: "0 < maxEntries \<lparr>entries = [], order = [], ttl = 10, maxEntries = 2\<rparr>"
    and early: "(10::int) \<le> 0 + ttl \<lparr>entries = [], order = [], ttl = 10, maxEntries = 2\<rparr>"
    and late: "0 + ttl \<lparr>entries = [], order = [], ttl = 10, maxEntries = 2\<rparr> < (11::int)"
    by (simp_all add: newKnowsDetailCache_def)
  have inv: "cache_inv \<lparr>entries = [], order = [], ttl = 10, maxEntries = 2\<rparr>"
    by (simp add: cache_inv_def newKnowsDetailCache_def)
  note inst = cache_get_after_set [of "\<lparr>entries = [], order = [], ttl = 10, maxEntries = 2\<rparr>" _ 0 "''a''" "GString ''x''"]
  have first: "knowsDetailCache_Get (knowsDetailCache_Set \<lparr>entries = [], order = [], ttl = 10, maxEntries = 2\<rparr> 0 ''a'' (GString ''x'')) 10 ''a''
     = (Some (GString ''x''), knowsDetailCache_Set \<lparr>entries = [], order = [], ttl = 10, maxEntries = 2\<rparr> 0 ''a'' (GString ''x''))"
    using inst [of 10] pos early by blast
  obtain c' where "knowsDetailCache_Get (knowsDetailCache_Set \<lparr>entries = [], order = [], ttl = 10, maxEntries = 2\<rparr> 0 ''a'' (GString ''x'')) 11 ''a'' = (None, c')"
    and "Suc (length (entries c')) = length (entries (knowsDetailCache_Set \<lparr>entries = [], order = [], ttl = 10, maxEntries = 2\<rparr> 0 ''a'' (GString ''x'')))"
    using inst [of 11] pos late inv by blast
  moreover have "length (entries (knowsDetailCache_Set \<lparr>entries = [], order = [], ttl = 10, maxEntries = 2\<rparr> 0 ''a'' (GString ''x''))) = 1"
    by (simp add: knowsDetailCache_Set_def newKnowsDetailCache_def)
  ultimately show ?thesis using first by simp
qed

text \<open>
  Capacity 2, TTL 10. \<open>a\<close> is set at 0, \<open>b\<close> at 1, \<open>a\<close> again at 9. At time 15 the
  entry of \<open>b\<close> has expired (at 11) and that of \<open>a\<close> has not (19). Setting \<open>c\<close> at 15
  finds two stored entries, so it evicts the oldest key \<open>a\<close>; the expired \<open>b\<close> stays.
\<close>

theorem expired_entry_counts_counterexample:
  "map_of (entries (knowsDetailCache_Set (knowsDetailCache_Set (knowsDetailCache_Set
       \<lparr>entries = [], order = [], ttl = 10, maxEntries = 2\<rparr> 0 ''a'' (GString ''va'')) 1 ''b'' (GString ''vb''))
       9 ''a'' (GString ''va2''))) ''b'' = Some \<lparr>val = GString ''vb'', expiresAt = 11\<rparr>
   \<and> map_of (entries (knowsDetailCache_Set (knowsDetailCache_Set (knowsDetailCache_Set
       \<lparr>entries = [], order = [], ttl = 10, maxEntries = 2\<rparr> 0 ''a'' (GString ''va'')) 1 ''b'' (GString ''vb''))
       9 ''a'' (GString ''va2''))) ''a'' = Some \<lparr>val = GString ''va2'', expiresAt = 19\<rparr>
   \<and> knowsDetailCache_Set (knowsDetailCache_Set (knowsDetailCache_Set (knowsDetailCache_Set
       \<lparr>entries = [], order = [], ttl = 10, maxEntries = 2\<rparr> 0 ''a'' (GString ''va'')) 1 ''b'' (GString ''vb''))
       9 ''a'' (GString ''va2'')) 15 ''c'' (GString ''vc'')
     = \<lparr>entries = [(''b'', \<lparr>val = GString ''vb'', expiresAt = 11\<rparr>),
                   (''c'', \<lparr>val = GString ''vc'', expiresAt = 25\<rparr>)],
        order = [''b'', ''c''], ttl = 10, maxEntries = 2\<rparr>"
  by (simp add: knowsDetailCache_Set_def newKnowsDetailCache_def)

lemma evictOldest_not_full:
  "int (length es) < m \<Longrightarrow> evictOldest m es ord = (es, ord)"
  by (cases ord) auto

lemma Set_notfull_new_key:
  assumes "0 < maxEntries c" and "int (length (entries c)) < maxEntries c"
    and "map_of (entries c) key = None"
  shows "knowsDetailCache_Set c now key v =
           c\<lparr>entries := AList.update key \<lparr>val = v, expiresAt = now + ttl c\<rparr> (entries c),
             order := order c @ [key]\<rparr>"
  using assms by (simp add: knowsDetailCache_Set_def evictOldest_not_full)

lemma Set_keeps_settings:
  "maxEntries (knowsDetailCache_Set c now key v) = maxEntries c
   \<and> ttl (knowsDetailCache_Set c now key v) = ttl c"
  by (simp add: knowsDetailCache_Set_def Let_def split: prod.splits)

lemma Get_expired_order:
  assumes "cache_inv c" and "map_of (entries c) key = Some e" and "expiresAt e < now"
  shows "order (snd (knowsDetailCache_Get c now key)) = filter (\<lambda>k. k \<noteq> key) (order c)"
    and "map_of (entries (snd (knowsDetailCache_Get c now key)))
           = (map_of (entries c))(key := None)"
proof -
  have "distinct (order c)" using assms(1) by (simp add: cache_inv_def)
  then have "remove1 key (order c) = filter (\<lambda>k. k \<noteq> key) (order c)"
    by (induction "order c" arbitrary: c) (auto simp: distinct_remove1_removeAll
        removeAll_filter_not_eq intro: filter_cong)
  then show "order (snd (knowsDetailCache_Get c now key)) = filter (\<lambda>k. k \<noteq> key) (order c)"
    using assms(2,3) by (simp add: knowsDetailCache_Get_def deleteLocked_def)
  show "map_of (entries (snd (knowsDetailCache_Get c now key)))
           = (map_of (entries c))(key := None)"
    using assms(2,3) by (simp add: knowsDetailCache_Get_def deleteLocked_def delete_conv')
qed

lemma Get_not_expired:
  assumes "\<forall>e. map_of (entries c) key = Some e \<longrightarrow> now \<le> expiresAt e"
  shows "snd (knowsDetailCache_Get c now key) = c"
  using assms by (auto simp: knowsDetailCache_Get_def split: option.splits)

text \<open>
  Distinct keys set one after the other into an empty cache of capacity \<open>m\<close>: the cache
  then holds the last \<open>m\<close> of them, in the order in which they were set.
\<close>

lemma fill_with_distinct_keys:
  assumes "0 < m" and "distinct ks"
  shows "cache_inv
           (foldl (\<lambda>cch k. knowsDetailCache_Set cch (clock k) k (valOf k))
              \<lparr>entries = [], order = [], ttl = tt, maxEntries = m\<rparr> ks)
       \<and> maxEntries
           (foldl (\<lambda>cch k. knowsDetailCache_Set cch (clock k) k (valOf k))
              \<lparr>entries = [], order = [], ttl = tt, maxEntries = m\<rparr> ks) = m
       \<and> order
           (foldl (\<lambda>cch k. knowsDetailCache_Set cch (clock k) k (valOf k))
              \<lparr>entries = [], order = [], ttl = tt, maxEntries = m\<rparr> ks)
           = drop (length ks - nat m) ks
       \<and> length (entries
           (foldl (\<lambda>cch k. knowsDetailCache_Set cch (clock k) k (valOf k))
              \<lparr>entries = [], order = [], ttl = tt, maxEntries = m\<rparr> ks))
           = length (drop (length ks - nat m) ks)"
  using assms(2)
proof (induction ks rule: rev_induct)
  case Nil
  then show ?case by (simp add: cache_inv_def)
next
  case (snoc k ks)
  let ?c = "foldl (\<lambda>cch k. knowsDetailCache_Set cch (clock k) k (valOf k))
              \<lparr>entries = [], order = [], ttl = tt, maxEntries = m\<rparr> ks"
  from snoc have inv: "cache_inv ?c" and cap: "maxEntries ?c = m"
    and ord: "order ?c = drop (length ks - nat m) ks"
    and len: "length (entries ?c) = length (drop (length ks - nat m) ks)"
    by simp_all
  have "k \<notin> set ks" using snoc.prems by simp
  then have "k \<notin> set (order ?c)"
    unfolding ord by (auto dest: in_set_dropD)
  then have absent: "map_of (entries ?c) k = None"
    using inv by (simp add: cache_inv_def map_of_None_keys)
  have pos: "0 < maxEntries ?c" using cap assms(1) by simp
  have step: "foldl (\<lambda>cch k. knowsDetailCache_Set cch (clock k) k (valOf k))
              \<lparr>entries = [], order = [], ttl = tt, maxEntries = m\<rparr> (ks @ [k])
            = knowsDetailCache_Set ?c (clock k) k (valOf k)"
    by simp
  have inv': "cache_inv (knowsDetailCache_Set ?c (clock k) k (valOf k))"
    using inv by (rule cache_inv_Set)
  have cap': "maxEntries (knowsDetailCache_Set ?c (clock k) k (valOf k)) = m"
    using cap by (simp add: Set_keeps_settings)
  show ?case
  proof (cases "length ks < nat m")
    case True
    then have small: "int (length (entries ?c)) < maxEntries ?c"
      using len cap by simp
    have eq: "knowsDetailCache_Set ?c (clock k) k (valOf k) =
           ?c\<lparr>entries := AList.update k \<lparr>val = valOf k, expiresAt = clock k + ttl ?c\<rparr>
                           (entries ?c),
              order := order ?c @ [k]\<rparr>"
      using pos small absent by (rule Set_notfull_new_key)
    have "k \<notin> fst ` set (entries ?c)"
      using absent by (simp add: map_of_None_keys)
    then have "length (entries (knowsDetailCache_Set ?c (clock k) k (valOf k)))
                 = Suc (length (entries ?c))"
      by (simp add: eq length_update_absent)
    moreover have "order (knowsDetailCache_Set ?c (clock k) k (valOf k)) = ks @ [k]"
      using True ord by (simp add: eq)
    ultimately show ?thesis
      unfolding step using inv' cap' True len by simp
  next
    case False
    then have full: "int (length (entries ?c)) = maxEntries ?c"
      using len cap assms(1) by simp
    from Set_full_new_key [OF inv pos full absent, of "clock k" "valOf k"]
    obtain oldest rest where o: "order ?c = oldest # rest"
      and eq: "knowsDetailCache_Set ?c (clock k) k (valOf k) =
               ?c\<lparr>entries := AList.update k \<lparr>val = valOf k, expiresAt = clock k + ttl ?c\<rparr>
                              (AList.delete oldest (entries ?c)),
                 order := rest @ [k]\<rparr>"
      and len': "int (length (entries (knowsDetailCache_Set ?c (clock k) k (valOf k))))
                   = maxEntries ?c"
      by blast
    have "rest = tl (drop (length ks - nat m) ks)"
      using o ord by (metis list.sel(3))
    then have rest: "rest = drop (Suc (length ks - nat m)) ks"
      by (simp add: drop_Suc tl_drop)
    have idx: "Suc (length ks) - nat m = Suc (length ks - nat m)"
      using False by simp
    have mpos: "Suc 0 - nat m = 0" using assms(1) by simp
    have "order (knowsDetailCache_Set ?c (clock k) k (valOf k))
            = drop (length (ks @ [k]) - nat m) (ks @ [k])"
      using False mpos by (simp add: eq rest idx)
    moreover have "length (entries (knowsDetailCache_Set ?c (clock k) k (valOf k)))
            = length (drop (length (ks @ [k]) - nat m) (ks @ [k]))"
      using len' cap False assms(1) by (simp add: idx)
    ultimately show ?thesis
      unfolding step using inv' cap' by simp
  qed
qed

text \<open>
  C4. On a cache in its invariant with \<open>maxEntries > 0\<close>: when the map holds exactly
  \<open>maxEntries\<close> entries, \<open>Set\<close> of an absent key removes the head of the insertion order
  and nothing else, appends the new key at the end of the order, stores the value (a \<open>Get\<close>
  up to the new expiry returns it) and leaves \<open>maxEntries\<close> entries. \<open>Set\<close> of a key that
  is present replaces its value and expiry and leaves the order and the number of entries
  as they were. A \<open>Get\<close> that finds a value changes nothing, and no \<open>Get\<close> adds an
  entry. \<open>Set\<close> keeps the number of entries within \<open>maxEntries\<close>, and keeps the invariant.

  The head of the order is the key that was inserted first: when the map holds fewer than
  \<open>maxEntries\<close> entries, \<open>Set\<close> of an absent key appends the key to the order, which is
  otherwise unchanged, and adds the entry to the map. A \<open>Get\<close> of an expired entry removes
  that key from the order and from the map and keeps the other keys in their order; every
  other \<open>Get\<close> leaves the cache as it was. So distinct keys set one after the other into an
  empty cache of capacity \<open>m\<close> leave the last \<open>m\<close> of them, in the order in which they
  were set.
\<close>

theorem cache_set_fifo:
  assumes "cache_inv c" and "0 < maxEntries c"
  shows
    "(int (length (entries c)) = maxEntries c \<and> map_of (entries c) key = None \<longrightarrow>
        (\<exists>oldest rest. order c = oldest # rest
           \<and> order (knowsDetailCache_Set c now key v) = rest @ [key]
           \<and> map_of (entries (knowsDetailCache_Set c now key v))
               = ((map_of (entries c))(oldest := None))
                   (key \<mapsto> \<lparr>val = v, expiresAt = now + ttl c\<rparr>)
           \<and> (\<forall>now'. now' \<le> now + ttl c \<longrightarrow>
                 fst (knowsDetailCache_Get (knowsDetailCache_Set c now key v) now' key) = Some v)
           \<and> int (length (entries (knowsDetailCache_Set c now key v))) = maxEntries c))
     \<and> (map_of (entries c) key \<noteq> None \<longrightarrow>
          order (knowsDetailCache_Set c now key v) = order c
          \<and> map_of (entries (knowsDetailCache_Set c now key v))
              = (map_of (entries c))(key \<mapsto> \<lparr>val = v, expiresAt = now + ttl c\<rparr>)
          \<and> length (entries (knowsDetailCache_Set c now key v)) = length (entries c))
     \<and> (\<forall>t k' v' c'. knowsDetailCache_Get c t k' = (Some v', c') \<longrightarrow> c' = c)
     \<and> (\<forall>t k'. length (entries (snd (knowsDetailCache_Get c t k'))) \<le> length (entries c))
     \<and> (int (length (entries c)) \<le> maxEntries c \<longrightarrow>
          int (length (entries (knowsDetailCache_Set c now key v))) \<le> maxEntries c)
     \<and> cache_inv (knowsDetailCache_Set c now key v)
     \<and> (int (length (entries c)) < maxEntries c \<and> map_of (entries c) key = None \<longrightarrow>
          order (knowsDetailCache_Set c now key v) = order c @ [key]
          \<and> map_of (entries (knowsDetailCache_Set c now key v))
              = (map_of (entries c))(key \<mapsto> \<lparr>val = v, expiresAt = now + ttl c\<rparr>)
          \<and> length (entries (knowsDetailCache_Set c now key v)) = Suc (length (entries c)))
     \<and> (\<forall>t k' e. map_of (entries c) k' = Some e \<and> expiresAt e < t \<longrightarrow>
          fst (knowsDetailCache_Get c t k') = None
          \<and> order (snd (knowsDetailCache_Get c t k')) = filter (\<lambda>k. k \<noteq> k') (order c)
          \<and> map_of (entries (snd (knowsDetailCache_Get c t k')))
              = (map_of (entries c))(k' := None))
     \<and> (\<forall>t k'. (\<forall>e. map_of (entries c) k' = Some e \<longrightarrow> t \<le> expiresAt e) \<longrightarrow>
          snd (knowsDetailCache_Get c t k') = c)
     \<and> (\<forall>m tt clock valOf ks. 0 < m \<and> distinct ks \<longrightarrow>
          order (foldl (\<lambda>cch k. knowsDetailCache_Set cch (clock k) k (valOf k))
                   \<lparr>entries = [], order = [], ttl = tt, maxEntries = m\<rparr> ks)
            = drop (length ks - nat m) ks
          \<and> fst ` set (entries
                (foldl (\<lambda>cch k. knowsDetailCache_Set cch (clock k) k (valOf k))
                   \<lparr>entries = [], order = [], ttl = tt, maxEntries = m\<rparr> ks))
            = set (drop (length ks - nat m) ks))"
proof (intro conjI impI allI)
  assume full: "int (length (entries c)) = maxEntries c \<and> map_of (entries c) key = None"
  then obtain oldest rest where ord: "order c = oldest # rest"
    and set_eq: "knowsDetailCache_Set c now key v =
               c\<lparr>entries := AList.update key \<lparr>val = v, expiresAt = now + ttl c\<rparr>
                              (AList.delete oldest (entries c)),
                 order := rest @ [key]\<rparr>"
    and len: "int (length (entries (knowsDetailCache_Set c now key v))) = maxEntries c"
    using Set_full_new_key [OF assms, of key now v] by blast
  have "\<forall>now'. now' \<le> now + ttl c \<longrightarrow>
          fst (knowsDetailCache_Get (knowsDetailCache_Set c now key v) now' key) = Some v"
    using assms(2) by (simp add: Set_then_Get)
  moreover have "map_of (entries (knowsDetailCache_Set c now key v))
               = ((map_of (entries c))(oldest := None))
                   (key \<mapsto> \<lparr>val = v, expiresAt = now + ttl c\<rparr>)"
    by (simp add: set_eq update_conv' delete_conv')
  moreover have "order (knowsDetailCache_Set c now key v) = rest @ [key]"
    by (simp add: set_eq)
  ultimately show "\<exists>oldest rest. order c = oldest # rest
           \<and> order (knowsDetailCache_Set c now key v) = rest @ [key]
           \<and> map_of (entries (knowsDetailCache_Set c now key v))
               = ((map_of (entries c))(oldest := None))
                   (key \<mapsto> \<lparr>val = v, expiresAt = now + ttl c\<rparr>)
           \<and> (\<forall>now'. now' \<le> now + ttl c \<longrightarrow>
                 fst (knowsDetailCache_Get (knowsDetailCache_Set c now key v) now' key) = Some v)
           \<and> int (length (entries (knowsDetailCache_Set c now key v))) = maxEntries c"
    using ord len by blast
next
  assume "map_of (entries c) key \<noteq> None"
  then obtain e where e: "map_of (entries c) key = Some e" by auto
  note eq = Set_existing_key [OF assms(2) e, of now v]
  show "order (knowsDetailCache_Set c now key v) = order c"
    by (simp add: eq)
  show "map_of (entries (knowsDetailCache_Set c now key v))
          = (map_of (entries c))(key \<mapsto> \<lparr>val = v, expiresAt = now + ttl c\<rparr>)"
    by (simp add: eq update_conv')
  have "key \<in> fst ` set (entries c)"
    using e by (metis map_of_None_keys option.distinct(1))
  then show "length (entries (knowsDetailCache_Set c now key v)) = length (entries c)"
    by (simp add: eq length_update_present)
next
  fix t k' v' c'
  assume "knowsDetailCache_Get c t k' = (Some v', c')"
  then show "c' = c" using Get_hit by blast
next
  fix t k'
  show "length (entries (snd (knowsDetailCache_Get c t k'))) \<le> length (entries c)"
    by (auto simp: knowsDetailCache_Get_def deleteLocked_def length_delete_le
        split: option.splits)
next
  assume "int (length (entries c)) \<le> maxEntries c"
  with assms show "int (length (entries (knowsDetailCache_Set c now key v))) \<le> maxEntries c"
    by (rule Set_size_bound)
next
  show "cache_inv (knowsDetailCache_Set c now key v)"
    using assms(1) by (rule cache_inv_Set)
next
  assume room: "int (length (entries c)) < maxEntries c \<and> map_of (entries c) key = None"
  then have eq: "knowsDetailCache_Set c now key v =
           c\<lparr>entries := AList.update key \<lparr>val = v, expiresAt = now + ttl c\<rparr> (entries c),
             order := order c @ [key]\<rparr>"
    using assms(2) by (simp add: Set_notfull_new_key)
  show "order (knowsDetailCache_Set c now key v) = order c @ [key]"
    by (simp add: eq)
  show "map_of (entries (knowsDetailCache_Set c now key v))
          = (map_of (entries c))(key \<mapsto> \<lparr>val = v, expiresAt = now + ttl c\<rparr>)"
    by (simp add: eq update_conv')
  have "key \<notin> fst ` set (entries c)"
    using room by (simp add: map_of_None_keys)
  then show "length (entries (knowsDetailCache_Set c now key v)) = Suc (length (entries c))"
    by (simp add: eq length_update_absent)
next
  fix t k' e
  assume old: "map_of (entries c) k' = Some e \<and> expiresAt e < t"
  then show "fst (knowsDetailCache_Get c t k') = None"
    by (simp add: knowsDetailCache_Get_def)
  from old show "order (snd (knowsDetailCache_Get c t k')) = filter (\<lambda>k. k \<noteq> k') (order c)"
    using Get_expired_order(1) [OF assms(1)] by blast
  from old show "map_of (entries (snd (knowsDetailCache_Get c t k')))
              = (map_of (entries c))(k' := None)"
    using Get_expired_order(2) [OF assms(1)] by blast
next
  fix t k'
  assume "\<forall>e. map_of (entries c) k' = Some e \<longrightarrow> t \<le> expiresAt e"
  then show "snd (knowsDetailCache_Get c t k') = c"
    by (rule Get_not_expired)
next
  fix m tt :: int and clock :: "string \<Rightarrow> int" and valOf :: "string \<Rightarrow> gvalue"
    and ks :: "string list"
  assume run: "0 < m \<and> distinct ks"
  let ?c = "foldl (\<lambda>cch k. knowsDetailCache_Set cch (clock k) k (valOf k))
                   \<lparr>entries = [], order = [], ttl = tt, maxEntries = m\<rparr> ks"
  from run have all: "cache_inv ?c \<and> maxEntries ?c = m
      \<and> order ?c = drop (length ks - nat m) ks
      \<and> length (entries ?c) = length (drop (length ks - nat m) ks)"
    using fill_with_distinct_keys [of m ks clock valOf tt] by blast
  then show "order ?c = drop (length ks - nat m) ks" by blast
  from all have inv: "cache_inv ?c" and ord: "order ?c = drop (length ks - nat m) ks"
    by blast+
  from inv have "set (order ?c) = fst ` set (entries ?c)"
    unfolding cache_inv_def by blast
  then have "fst ` set (entries ?c) = set (order ?c)" by (rule sym)
  then show "fst ` set (entries ?c) = set (drop (length ks - nat m) ks)"
    unfolding ord .
qed

theorem cache_set_fifo_witness:
  "order (knowsDetailCache_Set (knowsDetailCache_Set (knowsDetailCache_Set
       \<lparr>entries = [], order = [], ttl = 10, maxEntries = 3\<rparr>
       0 ''a'' (GString ''va'')) 1 ''b'' (GString ''vb'')) 2 ''c'' (GString ''vc''))
     = [''a'', ''b'', ''c'']
   \<and> knowsDetailCache_Get
       \<lparr>entries = [(''a'', \<lparr>val = GString ''va'', expiresAt = 13\<rparr>),
                   (''b'', \<lparr>val = GString ''vb'', expiresAt = 11\<rparr>),
                   (''c'', \<lparr>val = GString ''vc'', expiresAt = 12\<rparr>)],
        order = [''b'', ''c'', ''a''], ttl = 10, maxEntries = 3\<rparr> 12 ''c''
     = (Some (GString ''vc''),
        \<lparr>entries = [(''a'', \<lparr>val = GString ''va'', expiresAt = 13\<rparr>),
                   (''b'', \<lparr>val = GString ''vb'', expiresAt = 11\<rparr>),
                   (''c'', \<lparr>val = GString ''vc'', expiresAt = 12\<rparr>)],
         order = [''b'', ''c'', ''a''], ttl = 10, maxEntries = 3\<rparr>)
   \<and> order (snd (knowsDetailCache_Get
       \<lparr>entries = [(''a'', \<lparr>val = GString ''va'', expiresAt = 13\<rparr>),
                   (''b'', \<lparr>val = GString ''vb'', expiresAt = 11\<rparr>),
                   (''c'', \<lparr>val = GString ''vc'', expiresAt = 12\<rparr>)],
        order = [''b'', ''c'', ''a''], ttl = 10, maxEntries = 3\<rparr> 13 ''c''))
     = [''b'', ''a'']
   \<and> order (knowsDetailCache_Set
       \<lparr>entries = [(''a'', \<lparr>val = GString ''va'', expiresAt = 13\<rparr>),
                   (''b'', \<lparr>val = GString ''vb'', expiresAt = 11\<rparr>)],
        order = [''b'', ''a''], ttl = 10, maxEntries = 3\<rparr> 14 ''b'' (GString ''vb2''))
     = [''b'', ''a'']
   \<and> order (knowsDetailCache_Set
       \<lparr>entries = [(''a'', \<lparr>val = GString ''va'', expiresAt = 13\<rparr>),
                   (''b'', \<lparr>val = GString ''vb2'', expiresAt = 24\<rparr>)],
        order = [''b'', ''a''], ttl = 10, maxEntries = 3\<rparr> 15 ''d'' (GString ''vd''))
     = [''b'', ''a'', ''d'']
   \<and> order (knowsDetailCache_Set
       \<lparr>entries = [(''a'', \<lparr>val = GString ''va'', expiresAt = 13\<rparr>),
                   (''b'', \<lparr>val = GString ''vb2'', expiresAt = 24\<rparr>),
                   (''d'', \<lparr>val = GString ''vd'', expiresAt = 25\<rparr>)],
        order = [''b'', ''a'', ''d''], ttl = 10, maxEntries = 3\<rparr> 16 ''e'' (GString ''ve''))
     = [''a'', ''d'', ''e'']
   \<and> map_of (entries (knowsDetailCache_Set
       \<lparr>entries = [(''a'', \<lparr>val = GString ''va'', expiresAt = 13\<rparr>),
                   (''b'', \<lparr>val = GString ''vb2'', expiresAt = 24\<rparr>),
                   (''d'', \<lparr>val = GString ''vd'', expiresAt = 25\<rparr>)],
        order = [''b'', ''a'', ''d''], ttl = 10, maxEntries = 3\<rparr> 16 ''e'' (GString ''ve'')))
       ''b'' = None
   \<and> fst (knowsDetailCache_Get (knowsDetailCache_Set
       \<lparr>entries = [(''a'', \<lparr>val = GString ''va'', expiresAt = 13\<rparr>),
                   (''b'', \<lparr>val = GString ''vb2'', expiresAt = 24\<rparr>),
                   (''d'', \<lparr>val = GString ''vd'', expiresAt = 25\<rparr>)],
        order = [''b'', ''a'', ''d''], ttl = 10, maxEntries = 3\<rparr> 16 ''e'' (GString ''ve''))
       17 ''e'') = Some (GString ''ve'')"
proof -
  let ?c0 = "\<lparr>entries = [], order = [], ttl = 10, maxEntries = 3\<rparr> :: knowsDetailCache"
  let ?cA = "\<lparr>entries = [(''a'', \<lparr>val = GString ''va'', expiresAt = 13\<rparr>),
                   (''b'', \<lparr>val = GString ''vb'', expiresAt = 11\<rparr>),
                   (''c'', \<lparr>val = GString ''vc'', expiresAt = 12\<rparr>)],
        order = [''b'', ''c'', ''a''], ttl = 10, maxEntries = 3\<rparr>"
  let ?cB = "\<lparr>entries = [(''a'', \<lparr>val = GString ''va'', expiresAt = 13\<rparr>),
                   (''b'', \<lparr>val = GString ''vb'', expiresAt = 11\<rparr>)],
        order = [''b'', ''a''], ttl = 10, maxEntries = 3\<rparr>"
  let ?cC = "\<lparr>entries = [(''a'', \<lparr>val = GString ''va'', expiresAt = 13\<rparr>),
                   (''b'', \<lparr>val = GString ''vb2'', expiresAt = 24\<rparr>)],
        order = [''b'', ''a''], ttl = 10, maxEntries = 3\<rparr>"
  let ?cD = "\<lparr>entries = [(''a'', \<lparr>val = GString ''va'', expiresAt = 13\<rparr>),
                   (''b'', \<lparr>val = GString ''vb2'', expiresAt = 24\<rparr>),
                   (''d'', \<lparr>val = GString ''vd'', expiresAt = 25\<rparr>)],
        order = [''b'', ''a'', ''d''], ttl = 10, maxEntries = 3\<rparr>"
  have inv0: "cache_inv ?c0" and pos0: "0 < maxEntries ?c0"
    by (simp_all add: cache_inv_def)
  have invA: "cache_inv ?cA" and posA: "0 < maxEntries ?cA"
    by (auto simp: cache_inv_def)
  have invB: "cache_inv ?cB" and posB: "0 < maxEntries ?cB"
    by (auto simp: cache_inv_def)
  have invC: "cache_inv ?cC" and posC: "0 < maxEntries ?cC"
    by (auto simp: cache_inv_def)
  have invD: "cache_inv ?cD" and posD: "0 < maxEntries ?cD"
    by (auto simp: cache_inv_def)
  let ?clock = "\<lambda>k. if k = ''a'' then 0 else if k = ''b'' then 1 else (2::int)"
  let ?valOf = "\<lambda>k. GString (''v'' @ k)"
  note at0 = cache_set_fifo [OF inv0 pos0, of "''a''" 0 "GString ''va''"]
  note trace = at0 [THEN conjunct2, THEN conjunct2, THEN conjunct2, THEN conjunct2,
      THEN conjunct2, THEN conjunct2, THEN conjunct2, THEN conjunct2, THEN conjunct2,
      rule_format, where m = 3 and ks = "[''a'', ''b'', ''c'']" and clock = ?clock
      and valOf = ?valOf and tt = 10, THEN conjunct1]
  have "(0::int) < 3 \<and> distinct [''a'', ''b'', ''c'']" by simp
  then have "order (foldl (\<lambda>cch k. knowsDetailCache_Set cch (?clock k) k (?valOf k))
                 ?c0 [''a'', ''b'', ''c''])
               = drop (length [''a'', ''b'', ''c''] - nat 3) [''a'', ''b'', ''c'']"
    by (rule trace)
  then have s1: "order (knowsDetailCache_Set (knowsDetailCache_Set (knowsDetailCache_Set ?c0
       0 ''a'' (GString ''va'')) 1 ''b'' (GString ''vb'')) 2 ''c'' (GString ''vc''))
     = [''a'', ''b'', ''c'']"
    by simp
  note atA = cache_set_fifo [OF invA posA, of "''c''" 12 "GString ''vc''"]
  note fresh = atA [THEN conjunct2, THEN conjunct2, THEN conjunct2, THEN conjunct2,
      THEN conjunct2, THEN conjunct2, THEN conjunct2, THEN conjunct2, THEN conjunct1,
      THEN spec [of _ "12::int"], THEN spec [of _ "''c''"]]
  note stale = atA [THEN conjunct2, THEN conjunct2, THEN conjunct2, THEN conjunct2,
      THEN conjunct2, THEN conjunct2, THEN conjunct2, THEN conjunct1,
      THEN spec [of _ "13::int"], THEN spec [of _ "''c''"],
      THEN spec [of _ "\<lparr>val = GString ''vc'', expiresAt = 12\<rparr>"]]
  have "\<forall>e. map_of (entries ?cA) ''c'' = Some e \<longrightarrow> 12 \<le> expiresAt e" by simp
  with fresh have "snd (knowsDetailCache_Get ?cA 12 ''c'') = ?cA"
    by (rule mp)
  moreover have "fst (knowsDetailCache_Get ?cA 12 ''c'') = Some (GString ''vc'')"
    by (simp add: knowsDetailCache_Get_def)
  ultimately have s2: "knowsDetailCache_Get ?cA 12 ''c'' = (Some (GString ''vc''), ?cA)"
    by (simp add: prod_eq_iff)
  have "map_of (entries ?cA) ''c'' = Some \<lparr>val = GString ''vc'', expiresAt = 12\<rparr>
        \<and> expiresAt \<lparr>val = GString ''vc'', expiresAt = 12\<rparr> < 13" by simp
  with stale have "fst (knowsDetailCache_Get ?cA 13 ''c'') = None
          \<and> order (snd (knowsDetailCache_Get ?cA 13 ''c''))
               = filter (\<lambda>k. k \<noteq> ''c'') (order ?cA)
          \<and> map_of (entries (snd (knowsDetailCache_Get ?cA 13 ''c'')))
              = (map_of (entries ?cA))(''c'' := None)"
    by (rule mp)
  then have "order (snd (knowsDetailCache_Get ?cA 13 ''c''))
               = filter (\<lambda>k. k \<noteq> ''c'') (order ?cA)"
    by (rule conjunct2 [THEN conjunct1])
  then have s3: "order (snd (knowsDetailCache_Get ?cA 13 ''c'')) = [''b'', ''a'']"
    by simp
  note atB = cache_set_fifo [OF invB posB, of "''b''" 14 "GString ''vb2''"]
  have "map_of (entries ?cB) ''b'' \<noteq> None" by simp
  with atB [THEN conjunct2, THEN conjunct1]
  have "order (knowsDetailCache_Set ?cB 14 ''b'' (GString ''vb2'')) = order ?cB
          \<and> map_of (entries (knowsDetailCache_Set ?cB 14 ''b'' (GString ''vb2'')))
              = (map_of (entries ?cB))(''b'' \<mapsto> \<lparr>val = GString ''vb2'', expiresAt = 14 + ttl ?cB\<rparr>)
          \<and> length (entries (knowsDetailCache_Set ?cB 14 ''b'' (GString ''vb2'')))
              = length (entries ?cB)"
    by (rule mp)
  then have "order (knowsDetailCache_Set ?cB 14 ''b'' (GString ''vb2'')) = order ?cB"
    by (rule conjunct1)
  then have s4: "order (knowsDetailCache_Set ?cB 14 ''b'' (GString ''vb2'')) = [''b'', ''a'']"
    by simp
  note atC = cache_set_fifo [OF invC posC, of "''d''" 15 "GString ''vd''"]
  have "int (length (entries ?cC)) < maxEntries ?cC \<and> map_of (entries ?cC) ''d'' = None"
    by simp
  with atC [THEN conjunct2, THEN conjunct2, THEN conjunct2, THEN conjunct2,
      THEN conjunct2, THEN conjunct2, THEN conjunct1]
  have "order (knowsDetailCache_Set ?cC 15 ''d'' (GString ''vd'')) = order ?cC @ [''d'']
          \<and> map_of (entries (knowsDetailCache_Set ?cC 15 ''d'' (GString ''vd'')))
              = (map_of (entries ?cC))(''d'' \<mapsto> \<lparr>val = GString ''vd'', expiresAt = 15 + ttl ?cC\<rparr>)
          \<and> length (entries (knowsDetailCache_Set ?cC 15 ''d'' (GString ''vd'')))
              = Suc (length (entries ?cC))"
    by (rule mp)
  then have "order (knowsDetailCache_Set ?cC 15 ''d'' (GString ''vd'')) = order ?cC @ [''d'']"
    by (rule conjunct1)
  then have s5: "order (knowsDetailCache_Set ?cC 15 ''d'' (GString ''vd''))
                   = [''b'', ''a'', ''d'']"
    by simp
  have "int (length (entries ?cD)) = maxEntries ?cD \<and> map_of (entries ?cD) ''e'' = None"
    by simp
  with cache_set_fifo [OF invD posD, of "''e''" 16 "GString ''ve''", THEN conjunct1]
  have "\<exists>oldest rest. order ?cD = oldest # rest
     \<and> order (knowsDetailCache_Set ?cD 16 ''e'' (GString ''ve'')) = rest @ [''e'']
     \<and> map_of (entries (knowsDetailCache_Set ?cD 16 ''e'' (GString ''ve'')))
           = ((map_of (entries ?cD))(oldest := None))
               (''e'' \<mapsto> \<lparr>val = GString ''ve'', expiresAt = 16 + ttl ?cD\<rparr>)
     \<and> (\<forall>now'. now' \<le> 16 + ttl ?cD \<longrightarrow>
           fst (knowsDetailCache_Get (knowsDetailCache_Set ?cD 16 ''e'' (GString ''ve''))
                  now' ''e'') = Some (GString ''ve''))
     \<and> int (length (entries (knowsDetailCache_Set ?cD 16 ''e'' (GString ''ve''))))
           = maxEntries ?cD"
    by (rule mp)
  then obtain oldest rest where o1: "order ?cD = oldest # rest"
    and o2: "order (knowsDetailCache_Set ?cD 16 ''e'' (GString ''ve'')) = rest @ [''e'']"
    and o3: "map_of (entries (knowsDetailCache_Set ?cD 16 ''e'' (GString ''ve'')))
           = ((map_of (entries ?cD))(oldest := None))
               (''e'' \<mapsto> \<lparr>val = GString ''ve'', expiresAt = 16 + ttl ?cD\<rparr>)"
    and o4: "\<forall>now'. now' \<le> 16 + ttl ?cD \<longrightarrow>
           fst (knowsDetailCache_Get (knowsDetailCache_Set ?cD 16 ''e'' (GString ''ve''))
                  now' ''e'') = Some (GString ''ve'')"
    by blast
  have old: "oldest = ''b''" and rest: "rest = [''a'', ''d'']"
    using o1 by simp_all
  have s6: "order (knowsDetailCache_Set ?cD 16 ''e'' (GString ''ve'')) = [''a'', ''d'', ''e'']"
    using o2 rest by simp
  have s7: "map_of (entries (knowsDetailCache_Set ?cD 16 ''e'' (GString ''ve''))) ''b'' = None"
    unfolding o3 old by simp
  have "(17::int) \<le> 16 + ttl ?cD" by simp
  with o4 have s8: "fst (knowsDetailCache_Get (knowsDetailCache_Set ?cD 16 ''e''
                      (GString ''ve'')) 17 ''e'') = Some (GString ''ve'')"
    by blast
  from s1 s2 s3 s4 s5 s6 s7 s8 show ?thesis by blast
qed

section \<open>Construction: when it fails, and the defaults\<close>

lemma normalizeDataScope_fails_iff:
  "isl (normalizeDataScope mapUpper s)
     \<longleftrightarrow> ToUpper mapUpper (TrimSpace s) \<notin> set knowsAllowedDataScopes"
  by (auto simp: normalizeDataScope_def Let_def knowsAllowedDataScopes_def)

lemma normalizeDataScopes_loop_fails_iff:
  "isl (normalizeDataScopes_loop mapUpper out seen scopes)
     \<longleftrightarrow> (\<exists>s \<in> set scopes. isl (normalizeDataScope mapUpper s))"
proof (induction scopes arbitrary: out seen)
  case Nil
  then show ?case by simp
next
  case (Cons scope rest)
  then show ?case
    by (cases "normalizeDataScope mapUpper scope") auto
qed

lemma normalizeDataScopes_fails_iff:
  "isl (normalizeDataScopes mapUpper scopes)
     \<longleftrightarrow> (\<exists>s \<in> set scopes. ToUpper mapUpper (TrimSpace s) \<notin> set knowsAllowedDataScopes)"
  by (cases "scopes = []")
    (simp_all add: normalizeDataScopes_def normalizeDataScopes_loop_fails_iff
      normalizeDataScope_fails_iff)

lemma NewKnowsTools_cases:
  "NewKnowsTools mapUpper canMake opts =
     (if TrimSpace (APIKey opts) = [] then Inr (Inl ApiKeyRequired)
      else if TrimSpace (APIBaseURL opts) = [] then Inr (Inl ApiBaseURLRequired)
      else case normalizeDataScopes mapUpper (DefaultDataScope opts) of
             Inl err \<Rightarrow> Inr (Inl (InvalidDefaultDataScope err))
           | Inr scope \<Rightarrow>
               if \<not> canMake (if CacheMaxEntries opts \<le> 0 then 500 else CacheMaxEntries opts)
               then Inl MakesliceCapOutOfRange
               else Inr (Inr
                     \<lparr>client =
                        \<lparr>baseURL = TrimRight (TrimSpace (APIBaseURL opts)) ''/'',
                         apiKey = TrimSpace (APIKey opts),
                         httpTimeout =
                           (if RequestTimeout opts \<le> 0 then 120000000000
                            else RequestTimeout opts),
                         maxRetries = (if MaxRetries opts < 0 then 3 else MaxRetries opts),
                         retryBackoff =
                           (if RetryBackoff opts \<le> 0 then 500000000 else RetryBackoff opts),
                         cache =
                           \<lparr>entries = [], order = [],
                            ttl = (if CacheTTL opts \<le> 0 then 3600000000000 else CacheTTL opts),
                            maxEntries =
                              (if CacheMaxEntries opts \<le> 0 then 500
                               else CacheMaxEntries opts)\<rparr>\<rparr>,
                      defaultDataScope = (if scope = [] then knowsAllDataScopes else scope),
                      batchConcurrency =
                        (if BatchConcurrency opts \<le> 0 then 5 else BatchConcurrency opts)\<rparr>))"
  by (simp add: NewKnowsTools_def newKnowsDetailCache_def Let_def
      defaultKnowsRequestTimeout_def defaultKnowsMaxRetries_def defaultKnowsRetryBackoff_def
      defaultKnowsBatchLimit_def defaultKnowsCacheTTL_def defaultKnowsCacheEntries_def
      split: sum.splits)

lemma NewKnowsTools_error_iff:
  "(\<exists>err. NewKnowsTools mapUpper canMake opts = Inr (Inl err)) \<longleftrightarrow>
      TrimSpace (APIKey opts) = [] \<or> TrimSpace (APIBaseURL opts) = []
      \<or> (\<exists>s \<in> set (DefaultDataScope opts).
            ToUpper mapUpper (TrimSpace s) \<notin> set knowsAllowedDataScopes)"
  unfolding normalizeDataScopes_fails_iff [symmetric] NewKnowsTools_cases
  by (cases "normalizeDataScopes mapUpper (DefaultDataScope opts)") auto

lemma NewKnowsTools_panics_iff:
  "NewKnowsTools mapUpper canMake opts = Inl MakesliceCapOutOfRange \<longleftrightarrow>
     \<not> (TrimSpace (APIKey opts) = [] \<or> TrimSpace (APIBaseURL opts) = []
        \<or> (\<exists>s \<in> set (DefaultDataScope opts).
              ToUpper mapUpper (TrimSpace s) \<notin> set knowsAllowedDataScopes))
     \<and> \<not> canMake (if CacheMaxEntries opts \<le> 0 then 500 else CacheMaxEntries opts)"
  unfolding normalizeDataScopes_fails_iff [symmetric] NewKnowsTools_cases
  by (cases "normalizeDataScopes mapUpper (DefaultDataScope opts)") auto

text \<open>
  C5 (as amended). Construction returns an error exactly when the trimmed API key is empty,
  the trimmed base URL is empty, or some default scope, trimmed and uppercased, is outside
  the allowed set. For every other options value whose cache capacity (the default 500 for
  a non-positive \<open>CacheMaxEntries\<close>) the runtime can allocate, it succeeds. When it
  succeeds, a request timeout, retry backoff, batch concurrency, cache TTL or cache size
  that is zero or negative is replaced by its default, and so is a negative number of
  retries; a number of retries of zero is kept.
\<close>

theorem NewKnowsTools_fails_iff_and_defaults:
  "((\<exists>err. NewKnowsTools mapUpper canMake opts = Inr (Inl err)) \<longleftrightarrow>
      TrimSpace (APIKey opts) = [] \<or> TrimSpace (APIBaseURL opts) = []
      \<or> (\<exists>s \<in> set (DefaultDataScope opts).
            ToUpper mapUpper (TrimSpace s) \<notin> set knowsAllowedDataScopes))
   \<and> (canMake (if CacheMaxEntries opts \<le> 0 then 500 else CacheMaxEntries opts)
        \<and> \<not> (TrimSpace (APIKey opts) = [] \<or> TrimSpace (APIBaseURL opts) = []
              \<or> (\<exists>s \<in> set (DefaultDataScope opts).
                    ToUpper mapUpper (TrimSpace s) \<notin> set knowsAllowedDataScopes)) \<longrightarrow>
        (\<exists>f. NewKnowsTools mapUpper canMake opts = Inr (Inr f)))
   \<and> (\<forall>f. NewKnowsTools mapUpper canMake opts = Inr (Inr f) \<longrightarrow>
        httpTimeout (client f)
          = (if RequestTimeout opts \<le> 0 then 120000000000 else RequestTimeout opts)
        \<and> maxRetries (client f) = (if MaxRetries opts < 0 then 3 else MaxRetries opts)
        \<and> retryBackoff (client f)
          = (if RetryBackoff opts \<le> 0 then 500000000 else RetryBackoff opts)
        \<and> batchConcurrency f
          = (if BatchConcurrency opts \<le> 0 then 5 else BatchConcurrency opts)
        \<and> ttl (cache (client f))
          = (if CacheTTL opts \<le> 0 then 3600000000000 else CacheTTL opts)
        \<and> maxEntries (cache (client f))
          = (if CacheMaxEntries opts \<le> 0 then 500 else CacheMaxEntries opts))"
proof (intro conjI allI impI)
  show "(\<exists>err. NewKnowsTools mapUpper canMake opts = Inr (Inl err)) \<longleftrightarrow>
      TrimSpace (APIKey opts) = [] \<or> TrimSpace (APIBaseURL opts) = []
      \<or> (\<exists>s \<in> set (DefaultDataScope opts).
            ToUpper mapUpper (TrimSpace s) \<notin> set knowsAllowedDataScopes)"
    by (rule NewKnowsTools_error_iff)
next
  assume ok: "canMake (if CacheMaxEntries opts \<le> 0 then 500 else CacheMaxEntries opts)
        \<and> \<not> (TrimSpace (APIKey opts) = [] \<or> TrimSpace (APIBaseURL opts) = []
              \<or> (\<exists>s \<in> set (DefaultDataScope opts).
                    ToUpper mapUpper (TrimSpace s) \<notin> set knowsAllowedDataScopes))"
  then have "\<not> isl (normalizeDataScopes mapUpper (DefaultDataScope opts))"
    by (simp add: normalizeDataScopes_fails_iff)
  then obtain scope where "normalizeDataScopes mapUpper (DefaultDataScope opts) = Inr scope"
    by (cases "normalizeDataScopes mapUpper (DefaultDataScope opts)") auto
  with ok show "\<exists>f. NewKnowsTools mapUpper canMake opts = Inr (Inr f)"
    by (simp add: NewKnowsTools_cases)
next
  fix f
  assume ok: "NewKnowsTools mapUpper canMake opts = Inr (Inr f)"
  have k: "TrimSpace (APIKey opts) \<noteq> []"
  proof
    assume "TrimSpace (APIKey opts) = []"
    with ok show False by (simp add: NewKnowsTools_cases)
  qed
  have b: "TrimSpace (APIBaseURL opts) \<noteq> []"
  proof
    assume "TrimSpace (APIBaseURL opts) = []"
    with ok k show False by (simp add: NewKnowsTools_cases)
  qed
  obtain scope where sc: "normalizeDataScopes mapUpper (DefaultDataScope opts) = Inr scope"
    using ok k b
    by (cases "normalizeDataScopes mapUpper (DefaultDataScope opts)")
      (simp_all add: NewKnowsTools_cases)
  have cm: "canMake (if CacheMaxEntries opts \<le> 0 then 500 else CacheMaxEntries opts)"
  proof (rule ccontr)
    assume "\<not> canMake (if CacheMaxEntries opts \<le> 0 then 500 else CacheMaxEntries opts)"
    with ok k b sc show False by (simp add: NewKnowsTools_cases)
  qed
  have f: "f = \<lparr>client =
                        \<lparr>baseURL = TrimRight (TrimSpace (APIBaseURL opts)) ''/'',
                         apiKey = TrimSpace (APIKey opts),
                         httpTimeout =
                           (if RequestTimeout opts \<le> 0 then 120000000000
                            else RequestTimeout opts),
                         maxRetries = (if MaxRetries opts < 0 then 3 else MaxRetries opts),
                         retryBackoff =
                           (if RetryBackoff opts \<le> 0 then 500000000 else RetryBackoff opts),
                         cache =
                           \<lparr>entries = [], order = [],
                            ttl = (if CacheTTL opts \<le> 0 then 3600000000000 else CacheTTL opts),
                            maxEntries =
                              (if CacheMaxEntries opts \<le> 0 then 500
                               else CacheMaxEntries opts)\<rparr>\<rparr>,
                      defaultDataScope = (if scope = [] then knowsAllDataScopes else scope),
                      batchConcurrency =
                        (if BatchConcurrency opts \<le> 0 then 5 else BatchConcurrency opts)\<rparr>"
    using ok k b sc cm by (simp add: NewKnowsTools_cases)
  show "httpTimeout (client f)
          = (if RequestTimeout opts \<le> 0 then 120000000000 else RequestTimeout opts)"
    by (simp add: f)
  show "maxRetries (client f) = (if MaxRetries opts < 0 then 3 else MaxRetries opts)"
    by (simp add: f)
  show "retryBackoff (client f)
          = (if RetryBackoff opts \<le> 0 then 500000000 else RetryBackoff opts)"
    by (simp add: f)
  show "batchConcurrency f
          = (if BatchConcurrency opts \<le> 0 then 5 else BatchConcurrency opts)"
    by (simp add: f)
  show "ttl (cache (client f))
          = (if CacheTTL opts \<le> 0 then 3600000000000 else CacheTTL opts)"
    by (simp add: f)
  show "maxEntries (cache (client f))
          = (if CacheMaxEntries opts \<le> 0 then 500 else CacheMaxEntries opts)"
    by (simp add: f)
qed

lemmas NewKnowsTools_eval =
  NewKnowsTools_def normalizeDataScopes_def normalizeDataScope_def TrimSpace_def
  TrimRight_def spaceRunes_def ToUpper_def isASCII_def asciiUpper_def
  knowsAllowedDataScopes_def knowsAllDataScopes_def newKnowsDetailCache_def
  defaultKnowsRequestTimeout_def defaultKnowsMaxRetries_def defaultKnowsRetryBackoff_def
  defaultKnowsBatchLimit_def defaultKnowsCacheTTL_def defaultKnowsCacheEntries_def

text \<open>
  In the two theorems below the runtime is one that allocates a slice of strings as long as
  its sixteen bytes per string stay within \<open>2 ^ 48\<close> bytes (the limit of Go on 64-bit
  Linux).
\<close>

theorem NewKnowsTools_fails_iff_and_defaults_witness:
  "NewKnowsTools id (\<lambda>n. 16 * n \<le> 2 ^ 48)
     \<lparr>APIKey = '' key '', APIBaseURL = ''http://h/'', DefaultDataScope = [''guide'', ''PAPER''],
      RequestTimeout = 10000000000, MaxRetries = - 1, RetryBackoff = 0, BatchConcurrency = 2,
      CacheTTL = 0, CacheMaxEntries = - 5\<rparr>
   = Inr (Inr \<lparr>client = \<lparr>baseURL = ''http://h'', apiKey = ''key'', httpTimeout = 10000000000,
                     maxRetries = 3, retryBackoff = 500000000,
                     cache = \<lparr>entries = [], order = [], ttl = 3600000000000,
                              maxEntries = 500\<rparr>\<rparr>,
          defaultDataScope = [''GUIDE'', ''PAPER''], batchConcurrency = 2\<rparr>)
   \<and> NewKnowsTools id (\<lambda>n. 16 * n \<le> 2 ^ 48)
     \<lparr>APIKey = ''key'', APIBaseURL = ''http://h'', DefaultDataScope = [''AUDIO''],
      RequestTimeout = 0, MaxRetries = 0, RetryBackoff = 0, BatchConcurrency = 0,
      CacheTTL = 0, CacheMaxEntries = 0\<rparr>
     = Inr (Inl (InvalidDefaultDataScope (UnsupportedDataScope ''AUDIO'')))"
proof -
  let ?can = "\<lambda>n::int. 16 * n \<le> 2 ^ 48"
  let ?good = "\<lparr>APIKey = '' key '', APIBaseURL = ''http://h/'',
      DefaultDataScope = [''guide'', ''PAPER''],
      RequestTimeout = 10000000000, MaxRetries = - 1, RetryBackoff = 0, BatchConcurrency = 2,
      CacheTTL = 0, CacheMaxEntries = - 5\<rparr>"
  let ?bad = "\<lparr>APIKey = ''key'', APIBaseURL = ''http://h'', DefaultDataScope = [''AUDIO''],
      RequestTimeout = 0, MaxRetries = 0, RetryBackoff = 0, BatchConcurrency = 0,
      CacheTTL = 0, CacheMaxEntries = 0\<rparr>"
  note inst_good = NewKnowsTools_fails_iff_and_defaults [of id ?can ?good]
  note inst_bad = NewKnowsTools_fails_iff_and_defaults [of id ?can ?bad]
  have ok: "?can (if CacheMaxEntries ?good \<le> 0 then 500 else CacheMaxEntries ?good)
        \<and> \<not> (TrimSpace (APIKey ?good) = [] \<or> TrimSpace (APIBaseURL ?good) = []
              \<or> (\<exists>s \<in> set (DefaultDataScope ?good).
                    ToUpper id (TrimSpace s) \<notin> set knowsAllowedDataScopes))"
    by (simp add: NewKnowsTools_eval)
  with inst_good obtain f where f: "NewKnowsTools id ?can ?good = Inr (Inr f)"
    by blast
  with inst_good have "maxRetries (client f) = 3" and "retryBackoff (client f) = 500000000"
    and "maxEntries (cache (client f)) = 500" and "ttl (cache (client f)) = 3600000000000"
    and "httpTimeout (client f) = 10000000000" and "batchConcurrency f = 2"
    by simp_all
  moreover have "baseURL (client f) = ''http://h''" and "apiKey (client f) = ''key''"
    and "defaultDataScope f = [''GUIDE'', ''PAPER'']"
    and "entries (cache (client f)) = []" and "order (cache (client f)) = []"
    using f by (auto simp: NewKnowsTools_eval)
  ultimately have "f = \<lparr>client = \<lparr>baseURL = ''http://h'', apiKey = ''key'',
                     httpTimeout = 10000000000,
                     maxRetries = 3, retryBackoff = 500000000,
                     cache = \<lparr>entries = [], order = [], ttl = 3600000000000,
                              maxEntries = 500\<rparr>\<rparr>,
          defaultDataScope = [''GUIDE'', ''PAPER''], batchConcurrency = 2\<rparr>"
    by (cases f, cases "client f", cases "cache (client f)") auto
  with f have good: "NewKnowsTools id ?can ?good
   = Inr (Inr \<lparr>client = \<lparr>baseURL = ''http://h'', apiKey = ''key'', httpTimeout = 10000000000,
                     maxRetries = 3, retryBackoff = 500000000,
                     cache = \<lparr>entries = [], order = [], ttl = 3600000000000,
                              maxEntries = 500\<rparr>\<rparr>,
          defaultDataScope = [''GUIDE'', ''PAPER''], batchConcurrency = 2\<rparr>)"
    by simp
  have "\<exists>s \<in> set (DefaultDataScope ?bad). ToUpper id (TrimSpace s) \<notin> set knowsAllowedDataScopes"
    by (simp add: NewKnowsTools_eval)
  with inst_bad obtain err where "NewKnowsTools id ?can ?bad = Inr (Inl err)"
    by blast
  then have bad: "NewKnowsTools id ?can ?bad
     = Inr (Inl (InvalidDefaultDataScope (UnsupportedDataScope ''AUDIO'')))"
    by (simp add: NewKnowsTools_eval)
  from good bad show ?thesis by blast
qed

text \<open>
  Every numeric setting zero, and a default scope written in lower case with blanks around
  it: construction succeeds, the scope is accepted as \<open>PAPER\<close>, five settings take their
  defaults, and the number of retries stays zero although its default is three. With a
  cache size of \<open>2 ^ 62\<close> and nothing else wrong, the allocation panics and nothing is
  returned.
\<close>

theorem max_retries_zero_counterexample:
  "NewKnowsTools id (\<lambda>n. 16 * n \<le> 2 ^ 48)
     \<lparr>APIKey = ''key'', APIBaseURL = ''http://h'', DefaultDataScope = ['' paper ''],
      RequestTimeout = 0, MaxRetries = 0, RetryBackoff = 0, BatchConcurrency = 0,
      CacheTTL = 0, CacheMaxEntries = 0\<rparr>
   = Inr (Inr \<lparr>client = \<lparr>baseURL = ''http://h'', apiKey = ''key'', httpTimeout = 120000000000,
                     maxRetries = 0, retryBackoff = 500000000,
                     cache = \<lparr>entries = [], order = [], ttl = 3600000000000,
                              maxEntries = 500\<rparr>\<rparr>,
          defaultDataScope = [''PAPER''], batchConcurrency = 5\<rparr>)
   \<and> defaultKnowsMaxRetries = 3
   \<and> '' paper '' \<notin> set knowsAllowedDataScopes
   \<and> NewKnowsTools id (\<lambda>n. 16 * n \<le> 2 ^ 48)
     \<lparr>APIKey = ''key'', APIBaseURL = ''http://h'', DefaultDataScope = [],
      RequestTimeout = 0, MaxRetries = 3, RetryBackoff = 0, BatchConcurrency = 0,
      CacheTTL = 0, CacheMaxEntries = 2 ^ 62\<rparr>
     = Inl MakesliceCapOutOfRange"
  by (simp add: NewKnowsTools_eval)

section \<open>The HTTP client: retries\<close>

lemma shouldRetry_iff:
  "shouldRetry c attempt 0 (Some err) = (attempt < maxRetries c \<and> retryable (NoResponse err))"
  "shouldRetry c attempt status (Some err)
     = (attempt < maxRetries c \<and> retryable (BrokenBody status err))"
  "shouldRetry c attempt status None
     = (attempt < maxRetries c \<and> retryable (Response status body decoded))"
  by (auto simp: shouldRetry_def split: transport_error.splits)











lemma pass_success:
  assumes "attempt \<le> maxRetries c" and "srv attempt = Response status body decoded"
    and "200 \<le> status" and "status < 300"
  shows "postJSON_loop c path srv ctx lastErr attempt
           = (attempt + 1, unwrapResponse path body decoded)"
  using assms by (subst postJSON_loop.simps) simp








text \<open>
  C6 (as amended). A pass that meets a status from 200 to 299 ends the call. A body that is
  empty once trimmed gives the empty object. Otherwise the decoder's error is returned as a
  decoding failure; a decoded object whose \<open>data\<close> field is present and not null gives the
  value of that field; every other decoded value (no object, an object without \<open>data\<close>, an
  object whose \<open>data\<close> is null) is returned as it is.
\<close>

theorem postJSON_success_body:
  assumes "attempt \<le> maxRetries c" and "srv attempt = Response status body decoded"
    and "200 \<le> status" and "status < 300"
  shows "fst (postJSON_loop c path srv ctx lastErr attempt) = attempt + 1
     \<and> (TrimSpace body = [] \<longrightarrow>
          snd (postJSON_loop c path srv ctx lastErr attempt) = Inr (GObject []))
     \<and> (TrimSpace body \<noteq> [] \<longrightarrow>
          (\<forall>msg. decoded = Inl msg \<longrightarrow>
             snd (postJSON_loop c path srv ctx lastErr attempt) = Inl (DecodeFailed path msg))
          \<and> (\<forall>obj nested. decoded = Inr (GObject obj) \<and> map_of obj ''data'' = Some nested
                \<and> nested \<noteq> GNil \<longrightarrow>
               snd (postJSON_loop c path srv ctx lastErr attempt) = Inr nested)
          \<and> (\<forall>raw. decoded = Inr raw
                \<and> (\<forall>obj. raw = GObject obj \<longrightarrow>
                      map_of obj ''data'' = None \<or> map_of obj ''data'' = Some GNil) \<longrightarrow>
               snd (postJSON_loop c path srv ctx lastErr attempt) = Inr raw))"
proof -
  have run: "postJSON_loop c path srv ctx lastErr attempt
               = (attempt + 1, unwrapResponse path body decoded)"
    using assms by (rule pass_success)
  have "unwrapResponse path body decoded = Inr raw"
    if "TrimSpace body \<noteq> []" "decoded = Inr raw"
      "\<forall>obj. raw = GObject obj \<longrightarrow> map_of obj ''data'' = None \<or> map_of obj ''data'' = Some GNil"
    for raw
    using that by (cases raw) (auto simp: unwrapResponse_def)
  then show ?thesis
    unfolding run by (auto simp: unwrapResponse_def)
qed

theorem postJSON_success_body_witness:
  "postJSON_loop \<lparr>baseURL = ''http://h'', apiKey = ''key'', httpTimeout = 1000000000,
             maxRetries = 2, retryBackoff = 500000000, cache = \<lparr>entries = [], order = [], ttl = 10, maxEntries = 2\<rparr>\<rparr>
      ''/knows/answer''
      (\<lambda>k. Response 200 ''{..}'' (Inr (GObject [(''data'', GString ''x''), (''code'', GNumber 0)])))
      (\<lambda>k. TimerFired) None 0
    = (1, Inr (GString ''x''))"
proof -
  let ?c = "\<lparr>baseURL = ''http://h'', apiKey = ''key'', httpTimeout = 1000000000,
             maxRetries = 2, retryBackoff = 500000000, cache = \<lparr>entries = [], order = [], ttl = 10, maxEntries = 2\<rparr>\<rparr>"
  let ?d = "Inr (GObject [(''data'', GString ''x''), (''code'', GNumber 0)]) :: string + gvalue"
  let ?srv = "\<lambda>k::int. Response 200 ''{..}'' ?d"
  have a: "0 \<le> maxRetries ?c" and b: "?srv 0 = Response 200 ''{..}'' ?d"
    and s: "(200::int) \<le> 200" "(200::int) < 300"
    by simp_all
  have body: "TrimSpace ''{..}'' \<noteq> []"
    by (simp add: TrimSpace_def spaceRunes_def)
  have data: "?d = Inr (GObject [(''data'', GString ''x''), (''code'', GNumber 0)])
      \<and> map_of [(''data'', GString ''x''), (''code'', GNumber 0)] ''data'' = Some (GString ''x'')
      \<and> GString ''x'' \<noteq> GNil"
    by simp
  from postJSON_success_body [where attempt = 0 and c = ?c and srv = ?srv and status = 200
      and body = "''{..}''" and decoded = ?d and path = "''/knows/answer''"
      and ctx = "\<lambda>k. TimerFired" and lastErr = None, OF a b s] body data
  have "fst (postJSON_loop ?c ''/knows/answer'' ?srv (\<lambda>k. TimerFired) None 0) = 0 + 1"
    and "snd (postJSON_loop ?c ''/knows/answer'' ?srv (\<lambda>k. TimerFired) None 0)
           = Inr (GString ''x'')"
    by blast+
  then show ?thesis
    by (cases "postJSON_loop ?c ''/knows/answer'' ?srv (\<lambda>k. TimerFired) None 0") simp
qed

text \<open>
  The body \<^verbatim>\<open>{"data":null}\<close>, which decodes to an object whose \<open>data\<close> field is null: the
  call returns the whole object, not the null inside.
\<close>

theorem null_data_field_counterexample:
  "postJSON_loop \<lparr>baseURL = ''http://h'', apiKey = ''key'', httpTimeout = 1000000000,
             maxRetries = 2, retryBackoff = 500000000, cache = \<lparr>entries = [], order = [], ttl = 10, maxEntries = 2\<rparr>\<rparr>
      ''/knows/answer''
      (\<lambda>k. Response 200 (''{'' @ [CHR 0x22] @ ''data'' @ [CHR 0x22] @ '':null}'')
               (Inr (GObject [(''data'', GNil)])))
      (\<lambda>k. TimerFired) None 0
    = (1, Inr (GObject [(''data'', GNil)]))
   \<and> map_of [(''data'', GNil)] ''data'' = Some GNil
   \<and> GObject [(''data'', GNil)] \<noteq> GNil"
  by (simp add: postJSON_loop.simps unwrapResponse_def TrimSpace_def spaceRunes_def)

text \<open>
  C7, at the input where the code leaves the claim. With the default base delay of 500 ms,
  the wait after pass 35 should last eight seconds (the cap). The product
  \<open>500000000 * 2 ^ 35\<close> does not fit in 64 bits and wraps to a negative number, which the
  comparison with the cap lets through: the timer is armed with a negative duration.
\<close>

theorem retryDelay_wraps_at_35:
  "retryDelay 500000000 35 = - 1266874889709551616
   \<and> fst (waitRetry TimerFired 500000000 35) = - 1266874889709551616
   \<and> min (500000000 * 2 ^ 35) (8 * 1000000000) = (8000000000 :: int)
   \<and> retryDelay 500000000 34 = 8000000000"
  by (simp add: retryDelay_def waitRetry_def)

lemma sint_small:
  assumes "0 \<le> x" and "x < 2 ^ 63"
  shows "sint (word_of_int x :: 64 word) = x"
proof -
  have "(x + 2 ^ 63) mod 2 ^ 64 = x + 2 ^ 63"
    using assms by (intro mod_pos_pos_trivial) auto
  then show ?thesis
    by (simp add: int_word_sint)
qed

lemma retryDelay_in_range:
  assumes "0 \<le> b" and "b * 2 ^ n < 2 ^ 63"
  shows "retryDelay b (int n) = min (b * 2 ^ n) (8 * 1000000000)"
proof -
  have "(word_of_int b :: 64 word) * push_bit n 1 = word_of_int (b * 2 ^ n)"
    by (simp add: push_bit_eq_mult)
  moreover have "sint (word_of_int (b * 2 ^ n) :: 64 word) = b * 2 ^ n"
    using assms by (intro sint_small) auto
  ultimately show ?thesis
    by (simp add: retryDelay_def min_def)
qed

lemma waitRetry_cancelled:
  "snd (waitRetry (ContextDone e) b a) = Some (ContextError e)"
  by (simp add: waitRetry_def)

lemma pass_wait_cancelled:
  assumes "attempt < maxRetries c" and "retryable (srv attempt)"
    and "ctx attempt = ContextDone e"
  shows "postJSON_loop c path srv ctx lastErr attempt = (attempt + 1, Inl (ContextError e))"
proof (cases "srv attempt")
  case (NoRequest msg)
  with assms show ?thesis by simp
next
  case (NoResponse err)
  with assms show ?thesis
    by (subst postJSON_loop.simps) (simp add: shouldRetry_iff(1) waitRetry_cancelled)
next
  case (BrokenBody status err)
  with assms show ?thesis
    by (subst postJSON_loop.simps) (simp add: shouldRetry_iff(2) waitRetry_cancelled)
next
  case (Response status body decoded)
  with assms show ?thesis
    by (subst postJSON_loop.simps)
      (auto simp: shouldRetry_iff(3) [of _ _ _ body decoded] waitRetry_cancelled)
qed

section \<open>The batch operations: results by index\<close>

lemma collect_step_nth:
  assumes "j < length rs"
  shows "length (foldl (\<lambda>results (index, data). results[index := Some data]) rs
                  (map (\<lambda>i. (i, f i)) sched)) = length rs
       \<and> foldl (\<lambda>results (index, data). results[index := Some data]) rs
            (map (\<lambda>i. (i, f i)) sched) ! j
           = (if j \<in> set sched then Some (f j) else rs ! j)"
  using assms
proof (induction sched arbitrary: rs)
  case Nil
  then show ?case by simp
next
  case (Cons i sched)
  have "j < length (rs[i := Some (f i)])"
    using Cons.prems by simp
  from Cons.IH [OF this] Cons.prems show ?case
    by (auto simp: nth_list_update)
qed

lemma collectResults_length:
  "length (collectResults n ch) = n"
proof -
  have "length (foldl (\<lambda>results (index, data). results[index := Some data]) rs ch) = length rs"
    for rs :: "(string \<times> gvalue) list option list"
    by (induction ch arbitrary: rs) (auto split: prod.splits)
  then show ?thesis by (simp add: collectResults_def)
qed

lemma collectResults_by_index:
  assumes "set sched = {..<n}"
  shows "collectResults n (map (\<lambda>i. (i, f i)) sched) = map (\<lambda>i. Some (f i)) [0..<n]"
proof (rule nth_equalityI)
  show "length (collectResults n (map (\<lambda>i. (i, f i)) sched)) = length (map (\<lambda>i. Some (f i)) [0..<n])"
    by (simp add: collectResults_length)
next
  fix j
  assume "j < length (collectResults n (map (\<lambda>i. (i, f i)) sched))"
  then have j: "j < n" by (simp add: collectResults_length)
  then have "j < length (replicate n (None :: (string \<times> gvalue) list option))" by simp
  from collect_step_nth [OF this, of f sched] j assms
  show "collectResults n (map (\<lambda>i. (i, f i)) sched) ! j = map (\<lambda>i. Some (f i)) [0..<n] ! j"
    by (simp add: collectResults_def)
qed

lemma answerItem_fields:
  "map_of (answerItem req outcome) ''question_id'' = Some (GString (QuestionID req))"
  "outcome = Inr data \<Longrightarrow>
     map_of (answerItem req outcome) ''status'' = Some (GString ''success'')
     \<and> map_of (answerItem req outcome) ''data'' = Some data
     \<and> map_of (answerItem req outcome) ''error'' = None"
  "outcome = Inl msg \<Longrightarrow>
     map_of (answerItem req outcome) ''status'' = Some (GString ''error'')
     \<and> map_of (answerItem req outcome) ''error'' = Some (GString msg)
     \<and> map_of (answerItem req outcome) ''data'' = None"
  by (simp_all add: answerItem_def split: sum.splits)

lemma evidenceItem_fields:
  "map_of (evidenceItem item outcome) ''evidence_id'' = Some (GString (EvidenceID item))"
  "map_of (evidenceItem item outcome) ''type'' = Some (GString (Type item))"
  "outcome = Inr data \<Longrightarrow>
     map_of (evidenceItem item outcome) ''status'' = Some (GString ''success'')
     \<and> map_of (evidenceItem item outcome) ''data'' = Some data
     \<and> map_of (evidenceItem item outcome) ''error'' = None"
  "outcome = Inl msg \<Longrightarrow>
     map_of (evidenceItem item outcome) ''status'' = Some (GString ''error'')
     \<and> map_of (evidenceItem item outcome) ''error'' = Some (GString msg)
     \<and> map_of (evidenceItem item outcome) ''data'' = None"
  by (simp_all add: evidenceItem_def split: sum.splits)

lemma batchAnswer_handler_results:
  assumes "parseBatchAnswerRequests mapUpper args = Inr reqs"
    and "set sched = {..<length reqs}"
  shows "fst (batchAnswer_handler mapUpper answer sched args)
           = Inr (map (\<lambda>i. Some (answerItem (reqs ! i) (answer i (reqs ! i)))) [0..<length reqs])"
  using assms by (simp add: batchAnswer_handler_def collectResults_by_index)

lemma batchGetEvidenceDetails_handler_results:
  assumes "parseBatchEvidenceRequests mapUpper args = Inr evs"
    and "getOptionalBoolPointer args ''translate_to_chinese'' = Inr translate"
    and "set sched = {..<length evs}"
  shows "fst (batchGetEvidenceDetails_handler mapUpper fetch sched args)
           = Inr (map (\<lambda>i. Some (evidenceItem (evs ! i) (fetch i (evs ! i) translate)))
                    [0..<length evs])"
  using assms by (simp add: batchGetEvidenceDetails_handler_def collectResults_by_index)


lemma parseBatchAnswerRequests_loop_shape:
  assumes "parseBatchAnswerRequests_loop mapUpper i out raw = Inr res"
  shows "\<exists>new. res = out @ new \<and> length new = length raw
     \<and> (\<forall>j. j < length raw \<longrightarrow>
          (\<exists>m answerType. raw ! j = GObject m
             \<and> getRequiredString m ''question_id'' = Inr (QuestionID (new ! j))
             \<and> getRequiredString m ''answer_type'' = Inr answerType
             \<and> normalizeAnswerType mapUpper answerType = Inr (AnswerType (new ! j))))"
  using assms
proof (induction raw arbitrary: i out)
  case Nil
  then show ?case by simp
next
  case (Cons item rest)
  from Cons.prems obtain m where m: "item = GObject m"
    by (cases item) simp_all
  from Cons.prems m obtain questionID where
    q: "getRequiredString m ''question_id'' = Inr questionID"
    by (cases "getRequiredString m ''question_id''") simp_all
  from Cons.prems m q obtain answerType where
    a: "getRequiredString m ''answer_type'' = Inr answerType"
    by (cases "getRequiredString m ''answer_type''") simp_all
  from Cons.prems m q a obtain normalized where
    n: "normalizeAnswerType mapUpper answerType = Inr normalized"
    by (cases "normalizeAnswerType mapUpper answerType") simp_all
  let ?r = "\<lparr>QuestionID = questionID, AnswerType = normalized\<rparr>"
  from Cons.prems m q a n
  have "parseBatchAnswerRequests_loop mapUpper (Suc i) (out @ [?r]) rest = Inr res"
    by simp
  from Cons.IH [OF this] obtain new where
    res: "res = (out @ [?r]) @ new" and len: "length new = length rest"
    and elems: "\<forall>j. j < length rest \<longrightarrow>
          (\<exists>m answerType. rest ! j = GObject m
             \<and> getRequiredString m ''question_id'' = Inr (QuestionID (new ! j))
             \<and> getRequiredString m ''answer_type'' = Inr answerType
             \<and> normalizeAnswerType mapUpper answerType = Inr (AnswerType (new ! j)))"
    by blast
  have "\<exists>m answerType. (item # rest) ! j = GObject m
             \<and> getRequiredString m ''question_id'' = Inr (QuestionID ((?r # new) ! j))
             \<and> getRequiredString m ''answer_type'' = Inr answerType
             \<and> normalizeAnswerType mapUpper answerType = Inr (AnswerType ((?r # new) ! j))"
    if "j < length (item # rest)" for j
  proof (cases j)
    case 0
    with m q a n show ?thesis by simp
  next
    case (Suc j')
    with that elems show ?thesis by simp
  qed
  with res len show ?case
    by (intro exI [of _ "?r # new"]) simp
qed

lemma parseBatchAnswerRequests_shape:
  assumes "parseBatchAnswerRequests mapUpper args = Inr reqs"
  shows "\<exists>raw. map_of args ''requests'' = Some (GArray raw) \<and> length reqs = length raw
     \<and> (\<forall>j. j < length raw \<longrightarrow>
          (\<exists>m answerType. raw ! j = GObject m
             \<and> getRequiredString m ''question_id'' = Inr (QuestionID (reqs ! j))
             \<and> getRequiredString m ''answer_type'' = Inr answerType
             \<and> normalizeAnswerType mapUpper answerType = Inr (AnswerType (reqs ! j))))"
proof -
  from assms obtain raw where raw: "getRequiredArray args ''requests'' = Inr raw"
    by (cases "getRequiredArray args ''requests''") (simp_all add: parseBatchAnswerRequests_def)
  then have arr: "map_of args ''requests'' = Some (GArray raw)"
    by (auto simp: getRequiredArray_def split: option.splits gvalue.splits)
  from assms raw have "parseBatchAnswerRequests_loop mapUpper 0 [] raw = Inr reqs"
    by (auto simp: parseBatchAnswerRequests_def split: sum.splits if_splits)
  from parseBatchAnswerRequests_loop_shape [OF this] arr show ?thesis
    by auto
qed

lemma parseBatchEvidenceRequests_loop_shape:
  assumes "parseBatchEvidenceRequests_loop mapUpper i out raw = Inr res"
  shows "\<exists>new. res = out @ new \<and> length new = length raw
     \<and> (\<forall>j. j < length raw \<longrightarrow>
          (\<exists>m evidenceType. raw ! j = GObject m
             \<and> getRequiredString m ''evidence_id'' = Inr (EvidenceID (new ! j))
             \<and> getRequiredString m ''type'' = Inr evidenceType
             \<and> normalizeDataScope mapUpper evidenceType = Inr (Type (new ! j))))"
  using assms
proof (induction raw arbitrary: i out)
  case Nil
  then show ?case by simp
next
  case (Cons item rest)
  from Cons.prems obtain m where m: "item = GObject m"
    by (cases item) simp_all
  from Cons.prems m obtain evidenceID where
    q: "getRequiredString m ''evidence_id'' = Inr evidenceID"
    by (cases "getRequiredString m ''evidence_id''") simp_all
  from Cons.prems m q obtain evidenceType where
    a: "getRequiredString m ''type'' = Inr evidenceType"
    by (cases "getRequiredString m ''type''") simp_all
  from Cons.prems m q a obtain normalized where
    n: "normalizeDataScope mapUpper evidenceType = Inr normalized"
    by (cases "normalizeDataScope mapUpper evidenceType") simp_all
  let ?r = "\<lparr>EvidenceID = evidenceID, Type = normalized\<rparr>"
  from Cons.prems m q a n
  have "parseBatchEvidenceRequests_loop mapUpper (Suc i) (out @ [?r]) rest = Inr res"
    by simp
  from Cons.IH [OF this] obtain new where
    res: "res = (out @ [?r]) @ new" and len: "length new = length rest"
    and elems: "\<forall>j. j < length rest \<longrightarrow>
          (\<exists>m evidenceType. rest ! j = GObject m
             \<and> getRequiredString m ''evidence_id'' = Inr (EvidenceID (new ! j))
             \<and> getRequiredString m ''type'' = Inr evidenceType
             \<and> normalizeDataScope mapUpper evidenceType = Inr (Type (new ! j)))"
    by blast
  have "\<exists>m evidenceType. (item # rest) ! j = GObject m
             \<and> getRequiredString m ''evidence_id'' = Inr (EvidenceID ((?r # new) ! j))
             \<and> getRequiredString m ''type'' = Inr evidenceType
             \<and> normalizeDataScope mapUpper evidenceType = Inr (Type ((?r # new) ! j))"
    if "j < length (item # rest)" for j
  proof (cases j)
    case 0
    with m q a n show ?thesis by simp
  next
    case (Suc j')
    with that elems show ?thesis by simp
  qed
  with res len show ?case
    by (intro exI [of _ "?r # new"]) simp
qed

lemma parseBatchEvidenceRequests_shape:
  assumes "parseBatchEvidenceRequests mapUpper args = Inr evs"
  shows "\<exists>raw. map_of args ''evidences'' = Some (GArray raw) \<and> length evs = length raw
     \<and> (\<forall>j. j < length raw \<longrightarrow>
          (\<exists>m evidenceType. raw ! j = GObject m
             \<and> getRequiredString m ''evidence_id'' = Inr (EvidenceID (evs ! j))
             \<and> getRequiredString m ''type'' = Inr evidenceType
             \<and> normalizeDataScope mapUpper evidenceType = Inr (Type (evs ! j))))"
proof -
  from assms obtain raw where raw: "getRequiredArray args ''evidences'' = Inr raw"
    by (cases "getRequiredArray args ''evidences''")
      (simp_all add: parseBatchEvidenceRequests_def)
  then have arr: "map_of args ''evidences'' = Some (GArray raw)"
    by (auto simp: getRequiredArray_def split: option.splits gvalue.splits)
  from assms raw have "parseBatchEvidenceRequests_loop mapUpper 0 [] raw = Inr evs"
    by (auto simp: parseBatchEvidenceRequests_def split: sum.splits if_splits)
  from parseBatchEvidenceRequests_loop_shape [OF this] arr show ?thesis
    by auto
qed

lemma batchAnswer_handler_spec:
  assumes parse: "parseBatchAnswerRequests mapUpper args = Inr reqs"
    and sched: "distinct sched" "set sched = {..<length reqs}"
  shows "\<exists>results. fst (batchAnswer_handler mapUpper answer sched args) = Inr results
     \<and> length results = length reqs
     \<and> (\<forall>i. i < length reqs \<longrightarrow>
          (\<exists>item. results ! i = Some item
             \<and> map_of item ''question_id'' = Some (GString (QuestionID (reqs ! i)))
             \<and> (\<forall>data. answer i (reqs ! i) = Inr data \<longrightarrow>
                   map_of item ''status'' = Some (GString ''success'')
                   \<and> map_of item ''data'' = Some data \<and> map_of item ''error'' = None)
             \<and> (\<forall>msg. answer i (reqs ! i) = Inl msg \<longrightarrow>
                   map_of item ''status'' = Some (GString ''error'')
                   \<and> map_of item ''error'' = Some (GString msg)
                   \<and> map_of item ''data'' = None)))
     \<and> (\<forall>sched'. distinct sched' \<and> set sched' = {..<length reqs} \<longrightarrow>
          fst (batchAnswer_handler mapUpper answer sched' args) = Inr results)
     \<and> (\<forall>answer' i. i < length reqs \<and> answer' i (reqs ! i) = answer i (reqs ! i) \<longrightarrow>
          (\<exists>results'. fst (batchAnswer_handler mapUpper answer' sched args) = Inr results'
             \<and> results' ! i = results ! i))"
proof -
  let ?item = "\<lambda>f i. answerItem (reqs ! i) (f i (reqs ! i))"
  let ?results = "\<lambda>f. map (\<lambda>i. Some (?item f i)) [0..<length reqs]"
  have run: "fst (batchAnswer_handler mapUpper f s args) = Inr (?results f)"
    if "set s = {..<length reqs}" for f s
    using parse that by (rule batchAnswer_handler_results)
  have fields: "\<exists>item. ?results answer ! i = Some item
             \<and> map_of item ''question_id'' = Some (GString (QuestionID (reqs ! i)))
             \<and> (\<forall>data. answer i (reqs ! i) = Inr data \<longrightarrow>
                   map_of item ''status'' = Some (GString ''success'')
                   \<and> map_of item ''data'' = Some data \<and> map_of item ''error'' = None)
             \<and> (\<forall>msg. answer i (reqs ! i) = Inl msg \<longrightarrow>
                   map_of item ''status'' = Some (GString ''error'')
                   \<and> map_of item ''error'' = Some (GString msg)
                   \<and> map_of item ''data'' = None)"
    if "i < length reqs" for i
    using that answerItem_fields [where req = "reqs ! i" and outcome = "answer i (reqs ! i)"]
    by simp
  have isolated: "\<exists>results'. fst (batchAnswer_handler mapUpper answer' sched args) = Inr results'
             \<and> results' ! i = ?results answer ! i"
    if "i < length reqs" "answer' i (reqs ! i) = answer i (reqs ! i)" for answer' i
    using that run [OF sched(2), of answer'] by simp
  show ?thesis
  proof (rule exI [of _ "?results answer"], intro conjI allI impI)
    show "fst (batchAnswer_handler mapUpper answer sched args) = Inr (?results answer)"
      using sched(2) by (rule run)
    show "length (?results answer) = length reqs" by simp
  next
    fix i assume "i < length reqs"
    then show "\<exists>item. ?results answer ! i = Some item
             \<and> map_of item ''question_id'' = Some (GString (QuestionID (reqs ! i)))
             \<and> (\<forall>data. answer i (reqs ! i) = Inr data \<longrightarrow>
                   map_of item ''status'' = Some (GString ''success'')
                   \<and> map_of item ''data'' = Some data \<and> map_of item ''error'' = None)
             \<and> (\<forall>msg. answer i (reqs ! i) = Inl msg \<longrightarrow>
                   map_of item ''status'' = Some (GString ''error'')
                   \<and> map_of item ''error'' = Some (GString msg)
                   \<and> map_of item ''data'' = None)"
      by (rule fields)
  next
    fix sched' assume "distinct sched' \<and> set sched' = {..<length reqs}"
    then show "fst (batchAnswer_handler mapUpper answer sched' args) = Inr (?results answer)"
      by (intro run) simp
  next
    fix answer' i
    assume "i < length reqs \<and> answer' i (reqs ! i) = answer i (reqs ! i)"
    then show "\<exists>results'. fst (batchAnswer_handler mapUpper answer' sched args) = Inr results'
             \<and> results' ! i = ?results answer ! i"
      using isolated by blast
  qed
qed


lemma batchGetEvidenceDetails_handler_spec:
  assumes parse: "parseBatchEvidenceRequests mapUpper args = Inr evs"
    and flag: "getOptionalBoolPointer args ''translate_to_chinese'' = Inr translate"
    and sched: "distinct sched" "set sched = {..<length evs}"
  shows "\<exists>results. fst (batchGetEvidenceDetails_handler mapUpper fetch sched args) = Inr results
     \<and> length results = length evs
     \<and> (\<forall>i. i < length evs \<longrightarrow>
          (\<exists>item. results ! i = Some item
             \<and> map_of item ''evidence_id'' = Some (GString (EvidenceID (evs ! i)))
             \<and> map_of item ''type'' = Some (GString (Type (evs ! i)))
             \<and> (\<forall>data. fetch i (evs ! i) translate = Inr data \<longrightarrow>
                   map_of item ''status'' = Some (GString ''success'')
                   \<and> map_of item ''data'' = Some data \<and> map_of item ''error'' = None)
             \<and> (\<forall>msg. fetch i (evs ! i) translate = Inl msg \<longrightarrow>
                   map_of item ''status'' = Some (GString ''error'')
                   \<and> map_of item ''error'' = Some (GString msg)
                   \<and> map_of item ''data'' = None)))
     \<and> (\<forall>sched'. distinct sched' \<and> set sched' = {..<length evs} \<longrightarrow>
          fst (batchGetEvidenceDetails_handler mapUpper fetch sched' args) = Inr results)
     \<and> (\<forall>fetch' i. i < length evs
            \<and> fetch' i (evs ! i) translate = fetch i (evs ! i) translate \<longrightarrow>
          (\<exists>results'. fst (batchGetEvidenceDetails_handler mapUpper fetch' sched args)
                         = Inr results'
             \<and> results' ! i = results ! i))"
proof -
  let ?item = "\<lambda>f i. evidenceItem (evs ! i) (f i (evs ! i) translate)"
  let ?results = "\<lambda>f. map (\<lambda>i. Some (?item f i)) [0..<length evs]"
  have run: "fst (batchGetEvidenceDetails_handler mapUpper f s args) = Inr (?results f)"
    if "set s = {..<length evs}" for f s
    using parse flag that by (rule batchGetEvidenceDetails_handler_results)
  have fields: "\<exists>item. ?results fetch ! i = Some item
             \<and> map_of item ''evidence_id'' = Some (GString (EvidenceID (evs ! i)))
             \<and> map_of item ''type'' = Some (GString (Type (evs ! i)))
             \<and> (\<forall>data. fetch i (evs ! i) translate = Inr data \<longrightarrow>
                   map_of item ''status'' = Some (GString ''success'')
                   \<and> map_of item ''data'' = Some data \<and> map_of item ''error'' = None)
             \<and> (\<forall>msg. fetch i (evs ! i) translate = Inl msg \<longrightarrow>
                   map_of item ''status'' = Some (GString ''error'')
                   \<and> map_of item ''error'' = Some (GString msg)
                   \<and> map_of item ''data'' = None)"
    if "i < length evs" for i
    using that
      evidenceItem_fields [where item = "evs ! i" and outcome = "fetch i (evs ! i) translate"]
    by simp
  have isolated: "\<exists>results'. fst (batchGetEvidenceDetails_handler mapUpper fetch' sched args)
                                = Inr results'
             \<and> results' ! i = ?results fetch ! i"
    if "i < length evs" "fetch' i (evs ! i) translate = fetch i (evs ! i) translate"
    for fetch' i
    using that run [OF sched(2), of fetch'] by simp
  show ?thesis
  proof (rule exI [of _ "?results fetch"], intro conjI allI impI)
    show "fst (batchGetEvidenceDetails_handler mapUpper fetch sched args) = Inr (?results fetch)"
      using sched(2) by (rule run)
    show "length (?results fetch) = length evs" by simp
  next
    fix i assume "i < length evs"
    then show "\<exists>item. ?results fetch ! i = Some item
             \<and> map_of item ''evidence_id'' = Some (GString (EvidenceID (evs ! i)))
             \<and> map_of item ''type'' = Some (GString (Type (evs ! i)))
             \<and> (\<forall>data. fetch i (evs ! i) translate = Inr data \<longrightarrow>
                   map_of item ''status'' = Some (GString ''success'')
                   \<and> map_of item ''data'' = Some data \<and> map_of item ''error'' = None)
             \<and> (\<forall>msg. fetch i (evs ! i) translate = Inl msg \<longrightarrow>
                   map_of item ''status'' = Some (GString ''error'')
                   \<and> map_of item ''error'' = Some (GString msg)
                   \<and> map_of item ''data'' = None)"
      by (rule fields)
  next
    fix sched' assume "distinct sched' \<and> set sched' = {..<length evs}"
    then show "fst (batchGetEvidenceDetails_handler mapUpper fetch sched' args)
                 = Inr (?results fetch)"
      by (intro run) simp
  next
    fix fetch' i
    assume "i < length evs \<and> fetch' i (evs ! i) translate = fetch i (evs ! i) translate"
    then show "\<exists>results'. fst (batchGetEvidenceDetails_handler mapUpper fetch' sched args)
                              = Inr results'
             \<and> results' ! i = ?results fetch ! i"
      using isolated by blast
  qed
qed

text \<open>
  C1. When the sub-requests of a batch call parse (and, for the evidence batch, the optional
  \<open>translate_to_chinese\<close> flag does), there is one parsed sub-request per element of the
  input list, in the same order, with the element's trimmed identifier; and the call returns
  a list with one element per sub-request, whatever the order \<open>sched\<close> in which the workers
  finish. Element \<open>i\<close> holds the
  identifier of sub-request \<open>i\<close> (for evidence also its type) and the outcome of its own call:
  status \<open>success\<close> with the payload under \<open>data\<close> and no \<open>error\<close>, or status \<open>error\<close> with
  the message under \<open>error\<close> and no \<open>data\<close>. Every other order of completion gives the same
  list, and element \<open>i\<close> is the same in any run in which call \<open>i\<close> has the same outcome,
  whatever the other calls do.
\<close>

theorem batch_results_by_index:
  "(parseBatchAnswerRequests mapUpper args = Inr reqs
      \<and> distinct sched \<and> set sched = {..<length reqs} \<longrightarrow>
    (\<exists>raw. map_of args ''requests'' = Some (GArray raw) \<and> length reqs = length raw
       \<and> (\<forall>j. j < length raw \<longrightarrow>
            (\<exists>m answerType. raw ! j = GObject m
               \<and> getRequiredString m ''question_id'' = Inr (QuestionID (reqs ! j))
               \<and> getRequiredString m ''answer_type'' = Inr answerType
               \<and> normalizeAnswerType mapUpper answerType = Inr (AnswerType (reqs ! j)))))
    \<and> (\<exists>results. fst (batchAnswer_handler mapUpper answer sched args) = Inr results
     \<and> length results = length reqs
     \<and> (\<forall>i. i < length reqs \<longrightarrow>
          (\<exists>item. results ! i = Some item
             \<and> map_of item ''question_id'' = Some (GString (QuestionID (reqs ! i)))
             \<and> (\<forall>data. answer i (reqs ! i) = Inr data \<longrightarrow>
                   map_of item ''status'' = Some (GString ''success'')
                   \<and> map_of item ''data'' = Some data \<and> map_of item ''error'' = None)
             \<and> (\<forall>msg. answer i (reqs ! i) = Inl msg \<longrightarrow>
                   map_of item ''status'' = Some (GString ''error'')
                   \<and> map_of item ''error'' = Some (GString msg)
                   \<and> map_of item ''data'' = None)))
     \<and> (\<forall>sched'. distinct sched' \<and> set sched' = {..<length reqs} \<longrightarrow>
          fst (batchAnswer_handler mapUpper answer sched' args) = Inr results)
     \<and> (\<forall>answer' i. i < length reqs \<and> answer' i (reqs ! i) = answer i (reqs ! i) \<longrightarrow>
          (\<exists>results'. fst (batchAnswer_handler mapUpper answer' sched args) = Inr results'
             \<and> results' ! i = results ! i))))
   \<and> (parseBatchEvidenceRequests mapUpper args = Inr evs
        \<and> getOptionalBoolPointer args ''translate_to_chinese'' = Inr translate
        \<and> distinct sched \<and> set sched = {..<length evs} \<longrightarrow>
    (\<exists>raw. map_of args ''evidences'' = Some (GArray raw) \<and> length evs = length raw
       \<and> (\<forall>j. j < length raw \<longrightarrow>
            (\<exists>m evidenceType. raw ! j = GObject m
               \<and> getRequiredString m ''evidence_id'' = Inr (EvidenceID (evs ! j))
               \<and> getRequiredString m ''type'' = Inr evidenceType
               \<and> normalizeDataScope mapUpper evidenceType = Inr (Type (evs ! j)))))
    \<and> (\<exists>results. fst (batchGetEvidenceDetails_handler mapUpper fetch sched args) = Inr results
     \<and> length results = length evs
     \<and> (\<forall>i. i < length evs \<longrightarrow>
          (\<exists>item. results ! i = Some item
             \<and> map_of item ''evidence_id'' = Some (GString (EvidenceID (evs ! i)))
             \<and> map_of item ''type'' = Some (GString (Type (evs ! i)))
             \<and> (\<forall>data. fetch i (evs ! i) translate = Inr data \<longrightarrow>
                   map_of item ''status'' = Some (GString ''success'')
                   \<and> map_of item ''data'' = Some data \<and> map_of item ''error'' = None)
             \<and> (\<forall>msg. fetch i (evs ! i) translate = Inl msg \<longrightarrow>
                   map_of item ''status'' = Some (GString ''error'')
                   \<and> map_of item ''error'' = Some (GString msg)
                   \<and> map_of item ''data'' = None)))
     \<and> (\<forall>sched'. distinct sched' \<and> set sched' = {..<length evs} \<longrightarrow>
          fst (batchGetEvidenceDetails_handler mapUpper fetch sched' args) = Inr results)
     \<and> (\<forall>fetch' i. i < length evs
            \<and> fetch' i (evs ! i) translate = fetch i (evs ! i) translate \<longrightarrow>
          (\<exists>results'. fst (batchGetEvidenceDetails_handler mapUpper fetch' sched args)
                         = Inr results'
             \<and> results' ! i = results ! i))))"
proof (intro conjI impI)
  assume "parseBatchAnswerRequests mapUpper args = Inr reqs
      \<and> distinct sched \<and> set sched = {..<length reqs}"
  then show "\<exists>raw. map_of args ''requests'' = Some (GArray raw) \<and> length reqs = length raw
       \<and> (\<forall>j. j < length raw \<longrightarrow>
            (\<exists>m answerType. raw ! j = GObject m
               \<and> getRequiredString m ''question_id'' = Inr (QuestionID (reqs ! j))
               \<and> getRequiredString m ''answer_type'' = Inr answerType
               \<and> normalizeAnswerType mapUpper answerType = Inr (AnswerType (reqs ! j))))"
    by (intro parseBatchAnswerRequests_shape) simp
next
  assume "parseBatchEvidenceRequests mapUpper args = Inr evs
        \<and> getOptionalBoolPointer args ''translate_to_chinese'' = Inr translate
        \<and> distinct sched \<and> set sched = {..<length evs}"
  then show "\<exists>raw. map_of args ''evidences'' = Some (GArray raw) \<and> length evs = length raw
       \<and> (\<forall>j. j < length raw \<longrightarrow>
            (\<exists>m evidenceType. raw ! j = GObject m
               \<and> getRequiredString m ''evidence_id'' = Inr (EvidenceID (evs ! j))
               \<and> getRequiredString m ''type'' = Inr evidenceType
               \<and> normalizeDataScope mapUpper evidenceType = Inr (Type (evs ! j))))"
    by (intro parseBatchEvidenceRequests_shape) simp
next
  assume "parseBatchAnswerRequests mapUpper args = Inr reqs
      \<and> distinct sched \<and> set sched = {..<length reqs}"
  then show "\<exists>results. fst (batchAnswer_handler mapUpper answer sched args) = Inr results
     \<and> length results = length reqs
     \<and> (\<forall>i. i < length reqs \<longrightarrow>
          (\<exists>item. results ! i = Some item
             \<and> map_of item ''question_id'' = Some (GString (QuestionID (reqs ! i)))
             \<and> (\<forall>data. answer i (reqs ! i) = Inr data \<longrightarrow>
                   map_of item ''status'' = Some (GString ''success'')
                   \<and> map_of item ''data'' = Some data \<and> map_of item ''error'' = None)
             \<and> (\<forall>msg. answer i (reqs ! i) = Inl msg \<longrightarrow>
                   map_of item ''status'' = Some (GString ''error'')
                   \<and> map_of item ''error'' = Some (GString msg)
                   \<and> map_of item ''data'' = None)))
     \<and> (\<forall>sched'. distinct sched' \<and> set sched' = {..<length reqs} \<longrightarrow>
          fst (batchAnswer_handler mapUpper answer sched' args) = Inr results)
     \<and> (\<forall>answer' i. i < length reqs \<and> answer' i (reqs ! i) = answer i (reqs ! i) \<longrightarrow>
          (\<exists>results'. fst (batchAnswer_handler mapUpper answer' sched args) = Inr results'
             \<and> results' ! i = results ! i))"
    by (intro batchAnswer_handler_spec) simp_all
next
  assume "parseBatchEvidenceRequests mapUpper args = Inr evs
        \<and> getOptionalBoolPointer args ''translate_to_chinese'' = Inr translate
        \<and> distinct sched \<and> set sched = {..<length evs}"
  then show "\<exists>results. fst (batchGetEvidenceDetails_handler mapUpper fetch sched args) = Inr results
     \<and> length results = length evs
     \<and> (\<forall>i. i < length evs \<longrightarrow>
          (\<exists>item. results ! i = Some item
             \<and> map_of item ''evidence_id'' = Some (GString (EvidenceID (evs ! i)))
             \<and> map_of item ''type'' = Some (GString (Type (evs ! i)))
             \<and> (\<forall>data. fetch i (evs ! i) translate = Inr data \<longrightarrow>
                   map_of item ''status'' = Some (GString ''success'')
                   \<and> map_of item ''data'' = Some data \<and> map_of item ''error'' = None)
             \<and> (\<forall>msg. fetch i (evs ! i) translate = Inl msg \<longrightarrow>
                   map_of item ''status'' = Some (GString ''error'')
                   \<and> map_of item ''error'' = Some (GString msg)
                   \<and> map_of item ''data'' = None)))
     \<and> (\<forall>sched'. distinct sched' \<and> set sched' = {..<length evs} \<longrightarrow>
          fst (batchGetEvidenceDetails_handler mapUpper fetch sched' args) = Inr results)
     \<and> (\<forall>fetch' i. i < length evs
            \<and> fetch' i (evs ! i) translate = fetch i (evs ! i) translate \<longrightarrow>
          (\<exists>results'. fst (batchGetEvidenceDetails_handler mapUpper fetch' sched args)
                         = Inr results'
             \<and> results' ! i = results ! i))"
    by (intro batchGetEvidenceDetails_handler_spec) simp_all
qed

lemmas parse_eval =
  parseBatchAnswerRequests_def parseBatchEvidenceRequests_def getRequiredArray_def
  getRequiredString_def normalizeAnswerType_def normalizeDataScope_def
  getOptionalBoolPointer_def ParseBool_def TrimSpace_def spaceRunes_def ToUpper_def
  isASCII_def asciiUpper_def knowsAllowedAnswerTypes_def knowsAllowedDataScopes_def

theorem batch_results_by_index_witness:
  "(\<exists>results.
      fst (batchAnswer_handler id (\<lambda>i r. if i = 0 then Inl ''boom'' else Inr (GString ''ok''))
             [1, 0]
             [(''requests'', GArray
                [GObject [(''question_id'', GString '' q1 ''),
                          (''answer_type'', GString ''clinical'')],
                 GObject [(''question_id'', GString ''q2''),
                          (''answer_type'', GString ''RESEARCH'')]])]) = Inr results
      \<and> length results = 2
      \<and> (\<exists>item. results ! 0 = Some item
            \<and> map_of item ''question_id'' = Some (GString ''q1'')
            \<and> map_of item ''status'' = Some (GString ''error'')
            \<and> map_of item ''error'' = Some (GString ''boom'')
            \<and> map_of item ''data'' = None)
      \<and> (\<exists>item. results ! 1 = Some item
            \<and> map_of item ''question_id'' = Some (GString ''q2'')
            \<and> map_of item ''status'' = Some (GString ''success'')
            \<and> map_of item ''data'' = Some (GString ''ok'')))
   \<and> (\<exists>results.
      fst (batchGetEvidenceDetails_handler id
             (\<lambda>i r t. if i = 0 then Inl ''boom'' else Inr (GString ''ok'')) [1, 0]
             [(''evidences'', GArray
                [GObject [(''evidence_id'', GString ''e1''), (''type'', GString ''paper'')],
                 GObject [(''evidence_id'', GString ''e2''), (''type'', GString ''GUIDE'')]]),
              (''translate_to_chinese'', GString ''true'')]) = Inr results
      \<and> length results = 2
      \<and> (\<exists>item. results ! 0 = Some item
            \<and> map_of item ''evidence_id'' = Some (GString ''e1'')
            \<and> map_of item ''status'' = Some (GString ''error'')
            \<and> map_of item ''data'' = None)
      \<and> (\<exists>item. results ! 1 = Some item
            \<and> map_of item ''evidence_id'' = Some (GString ''e2'')
            \<and> map_of item ''data'' = Some (GString ''ok'')))"
proof (rule conjI)
  let ?args = "[(''requests'', GArray
                [GObject [(''question_id'', GString '' q1 ''),
                          (''answer_type'', GString ''clinical'')],
                 GObject [(''question_id'', GString ''q2''),
                          (''answer_type'', GString ''RESEARCH'')]])]"
  let ?reqs = "[\<lparr>QuestionID = ''q1'', AnswerType = ''CLINICAL''\<rparr>,
                \<lparr>QuestionID = ''q2'', AnswerType = ''RESEARCH''\<rparr>]"
  let ?answer = "\<lambda>(i::nat) (r::knowsBatchAnswerRequest).
                   if i = 0 then Inl ''boom'' else (Inr (GString ''ok'') :: string + gvalue)"
  have hyp: "parseBatchAnswerRequests id ?args = Inr ?reqs
      \<and> distinct [1, 0::nat] \<and> set [1, 0::nat] = {..<length ?reqs}"
    by (auto simp: parse_eval)
  from batch_results_by_index [where mapUpper = id and args = ?args and reqs = ?reqs
      and sched = "[1, 0]" and answer = ?answer, THEN conjunct1, THEN mp, OF hyp,
      THEN conjunct2]
  obtain results where run: "fst (batchAnswer_handler id ?answer [1, 0] ?args) = Inr results"
    and len: "length results = length ?reqs"
    and elems: "\<forall>i. i < length ?reqs \<longrightarrow>
          (\<exists>item. results ! i = Some item
             \<and> map_of item ''question_id'' = Some (GString (QuestionID (?reqs ! i)))
             \<and> (\<forall>data. ?answer i (?reqs ! i) = Inr data \<longrightarrow>
                   map_of item ''status'' = Some (GString ''success'')
                   \<and> map_of item ''data'' = Some data \<and> map_of item ''error'' = None)
             \<and> (\<forall>msg. ?answer i (?reqs ! i) = Inl msg \<longrightarrow>
                   map_of item ''status'' = Some (GString ''error'')
                   \<and> map_of item ''error'' = Some (GString msg)
                   \<and> map_of item ''data'' = None))"
    by (elim exE conjE)
  from elems [rule_format, of 0]
  have e0: "\<exists>item. results ! 0 = Some item
            \<and> map_of item ''question_id'' = Some (GString ''q1'')
            \<and> map_of item ''status'' = Some (GString ''error'')
            \<and> map_of item ''error'' = Some (GString ''boom'')
            \<and> map_of item ''data'' = None"
    by simp
  from elems [rule_format, of 1]
  have e1: "\<exists>item. results ! 1 = Some item
            \<and> map_of item ''question_id'' = Some (GString ''q2'')
            \<and> map_of item ''status'' = Some (GString ''success'')
            \<and> map_of item ''data'' = Some (GString ''ok'')"
    by auto
  from run len e0 e1
  show "\<exists>results. fst (batchAnswer_handler id ?answer [1, 0] ?args) = Inr results
      \<and> length results = 2
      \<and> (\<exists>item. results ! 0 = Some item
            \<and> map_of item ''question_id'' = Some (GString ''q1'')
            \<and> map_of item ''status'' = Some (GString ''error'')
            \<and> map_of item ''error'' = Some (GString ''boom'')
            \<and> map_of item ''data'' = None)
      \<and> (\<exists>item. results ! 1 = Some item
            \<and> map_of item ''question_id'' = Some (GString ''q2'')
            \<and> map_of item ''status'' = Some (GString ''success'')
            \<and> map_of item ''data'' = Some (GString ''ok''))"
    by (intro exI [of _ results]) simp
next
  let ?args = "[(''evidences'', GArray
                [GObject [(''evidence_id'', GString ''e1''), (''type'', GString ''paper'')],
                 GObject [(''evidence_id'', GString ''e2''), (''type'', GString ''GUIDE'')]]),
              (''translate_to_chinese'', GString ''true'')]"
  let ?evs = "[\<lparr>EvidenceID = ''e1'', Type = ''PAPER''\<rparr>,
               \<lparr>EvidenceID = ''e2'', Type = ''GUIDE''\<rparr>]"
  let ?fetch = "\<lambda>(i::nat) (r::knowsBatchEvidenceRequest) (t::bool option).
                   if i = 0 then Inl ''boom'' else (Inr (GString ''ok'') :: string + gvalue)"
  have hyp: "parseBatchEvidenceRequests id ?args = Inr ?evs
      \<and> getOptionalBoolPointer ?args ''translate_to_chinese'' = Inr (Some True)
      \<and> distinct [1, 0::nat] \<and> set [1, 0::nat] = {..<length ?evs}"
    by (auto simp: parse_eval)
  from batch_results_by_index [where mapUpper = id and args = ?args and evs = ?evs
      and translate = "Some True" and sched = "[1, 0]" and fetch = ?fetch,
      THEN conjunct2, THEN mp, OF hyp, THEN conjunct2]
  obtain results where
    run: "fst (batchGetEvidenceDetails_handler id ?fetch [1, 0] ?args) = Inr results"
    and len: "length results = length ?evs"
    and elems: "\<forall>i. i < length ?evs \<longrightarrow>
          (\<exists>item. results ! i = Some item
             \<and> map_of item ''evidence_id'' = Some (GString (EvidenceID (?evs ! i)))
             \<and> map_of item ''type'' = Some (GString (Type (?evs ! i)))
             \<and> (\<forall>data. ?fetch i (?evs ! i) (Some True) = Inr data \<longrightarrow>
                   map_of item ''status'' = Some (GString ''success'')
                   \<and> map_of item ''data'' = Some data \<and> map_of item ''error'' = None)
             \<and> (\<forall>msg. ?fetch i (?evs ! i) (Some True) = Inl msg \<longrightarrow>
                   map_of item ''status'' = Some (GString ''error'')
                   \<and> map_of item ''error'' = Some (GString msg)
                   \<and> map_of item ''data'' = None))"
    by (elim exE conjE)
  from elems [rule_format, of 0]
  have e0: "\<exists>item. results ! 0 = Some item
            \<and> map_of item ''evidence_id'' = Some (GString ''e1'')
            \<and> map_of item ''status'' = Some (GString ''error'')
            \<and> map_of item ''data'' = None"
    by auto
  from elems [rule_format, of 1]
  have e1: "\<exists>item. results ! 1 = Some item
            \<and> map_of item ''evidence_id'' = Some (GString ''e2'')
            \<and> map_of item ''data'' = Some (GString ''ok'')"
    by auto
  from run len e0 e1
  show "\<exists>results. fst (batchGetEvidenceDetails_handler id ?fetch [1, 0] ?args) = Inr results
      \<and> length results = 2
      \<and> (\<exists>item. results ! 0 = Some item
            \<and> map_of item ''evidence_id'' = Some (GString ''e1'')
            \<and> map_of item ''status'' = Some (GString ''error'')
            \<and> map_of item ''data'' = None)
      \<and> (\<exists>item. results ! 1 = Some item
            \<and> map_of item ''evidence_id'' = Some (GString ''e2'')
            \<and> map_of item ''data'' = Some (GString ''ok''))"
    by (intro exI [of _ results]) simp
qed

section \<open>Empty batches\<close>

lemma parseBatchAnswerRequests_nonempty:
  "parseBatchAnswerRequests mapUpper args = Inr reqs \<Longrightarrow> reqs \<noteq> []"
  by (auto simp: parseBatchAnswerRequests_def split: sum.splits if_splits)

lemma parseBatchEvidenceRequests_nonempty:
  "parseBatchEvidenceRequests mapUpper args = Inr evs \<Longrightarrow> evs \<noteq> []"
  by (auto simp: parseBatchEvidenceRequests_def split: sum.splits if_splits)

text \<open>
  C8. When the list of a batch call (\<open>requests\<close>, \<open>evidences\<close>) is an empty array, parsing
  fails with the error that the list must not be empty, and the handler returns that error
  without any worker having made a call. A list of results that a batch handler returns is
  never empty.
\<close>

theorem empty_batch_rejected:
  "(map_of args ''requests'' = Some (GArray []) \<longrightarrow>
      parseBatchAnswerRequests mapUpper args = Inl (MustNotBeEmpty ''requests'')
      \<and> batchAnswer_handler mapUpper answer sched args = (Inl (MustNotBeEmpty ''requests''), []))
   \<and> (map_of args ''evidences'' = Some (GArray []) \<longrightarrow>
        parseBatchEvidenceRequests mapUpper args = Inl (MustNotBeEmpty ''evidences'')
        \<and> batchGetEvidenceDetails_handler mapUpper fetch sched args
            = (Inl (MustNotBeEmpty ''evidences''), []))
   \<and> (\<forall>results. fst (batchAnswer_handler mapUpper answer sched args) = Inr results \<longrightarrow>
         results \<noteq> [])
   \<and> (\<forall>results. fst (batchGetEvidenceDetails_handler mapUpper fetch sched args) = Inr results
         \<longrightarrow> results \<noteq> [])"
proof (intro conjI impI allI)
  assume empty: "map_of args ''requests'' = Some (GArray [])"
  then show p: "parseBatchAnswerRequests mapUpper args = Inl (MustNotBeEmpty ''requests'')"
    by (simp add: parseBatchAnswerRequests_def getRequiredArray_def)
  then show "batchAnswer_handler mapUpper answer sched args
               = (Inl (MustNotBeEmpty ''requests''), [])"
    by (simp add: batchAnswer_handler_def)
next
  assume empty: "map_of args ''evidences'' = Some (GArray [])"
  then show p: "parseBatchEvidenceRequests mapUpper args = Inl (MustNotBeEmpty ''evidences'')"
    by (simp add: parseBatchEvidenceRequests_def getRequiredArray_def)
  then show "batchGetEvidenceDetails_handler mapUpper fetch sched args
               = (Inl (MustNotBeEmpty ''evidences''), [])"
    by (simp add: batchGetEvidenceDetails_handler_def)
next
  fix results
  assume ok: "fst (batchAnswer_handler mapUpper answer sched args) = Inr results"
  then obtain reqs where parse: "parseBatchAnswerRequests mapUpper args = Inr reqs"
    by (cases "parseBatchAnswerRequests mapUpper args")
      (simp_all add: batchAnswer_handler_def)
  with ok have "length results = length reqs"
    by (auto simp: batchAnswer_handler_def collectResults_length)
  with parseBatchAnswerRequests_nonempty [OF parse] show "results \<noteq> []" by auto
next
  fix results
  assume ok: "fst (batchGetEvidenceDetails_handler mapUpper fetch sched args) = Inr results"
  then obtain evs where parse: "parseBatchEvidenceRequests mapUpper args = Inr evs"
    by (cases "parseBatchEvidenceRequests mapUpper args")
      (simp_all add: batchGetEvidenceDetails_handler_def)
  with ok have "length results = length evs"
    by (auto simp: batchGetEvidenceDetails_handler_def collectResults_length
        split: sum.splits)
  with parseBatchEvidenceRequests_nonempty [OF parse] show "results \<noteq> []" by auto
qed

theorem empty_batch_rejected_witness:
  "batchAnswer_handler id (\<lambda>i r. Inr GNil) [] [(''requests'', GArray [])]
     = (Inl (MustNotBeEmpty ''requests''), [])
   \<and> batchGetEvidenceDetails_handler id (\<lambda>i r t. Inr GNil) []
        [(''translate_to_chinese'', GBool True), (''evidences'', GArray [])]
     = (Inl (MustNotBeEmpty ''evidences''), [])
   \<and> fst (batchAnswer_handler id (\<lambda>i r. Inr GNil) [0]
        [(''requests'', GArray [GObject [(''question_id'', GString ''q1''),
                                         (''answer_type'', GString ''research'')]])])
     = Inr [Some [(''question_id'', GString ''q1''), (''status'', GString ''success''),
                  (''data'', GNil)]]"
proof -
  have a: "map_of [(''requests'', GArray [])] ''requests'' = Some (GArray [])"
    and b: "map_of [(''translate_to_chinese'', GBool True), (''evidences'', GArray [])]
              ''evidences'' = Some (GArray [])"
    by simp_all
  have run: "fst (batchAnswer_handler id (\<lambda>i r. Inr GNil) [0]
        [(''requests'', GArray [GObject [(''question_id'', GString ''q1''),
                                         (''answer_type'', GString ''research'')]])])
     = Inr [Some [(''question_id'', GString ''q1''), (''status'', GString ''success''),
                  (''data'', GNil)]]"
    by (simp add: batchAnswer_handler_def collectResults_def answerItem_def parse_eval)
  have "[Some [(''question_id'', GString ''q1''), (''status'', GString ''success''),
               (''data'', GNil)]] \<noteq> []"
    using empty_batch_rejected [where mapUpper = id and answer = "\<lambda>i r. Inr GNil"
        and sched = "[0]"
        and args = "[(''requests'', GArray [GObject [(''question_id'', GString ''q1''),
                                         (''answer_type'', GString ''research'')]])]"] run
    by blast
  with empty_batch_rejected [where mapUpper = id and args = "[(''requests'', GArray [])]"
      and answer = "\<lambda>i r. Inr GNil" and sched = "[]"] a
    empty_batch_rejected [where mapUpper = id
      and args = "[(''translate_to_chinese'', GBool True), (''evidences'', GArray [])]"
      and fetch = "\<lambda>i r t. Inr GNil" and sched = "[]"] b run
  show ?thesis by blast
qed

section \<open>Cached lookups: the translation flag\<close>

lemma Get_keeps_settings:
  "knowsDetailCache_Get cch t key = (r, cch') \<Longrightarrow>
     maxEntries cch' = maxEntries cch \<and> ttl cch' = ttl cch"
  by (auto simp: knowsDetailCache_Get_def deleteLocked_def split: option.splits if_splits)

lemma Set_after_miss_then_Get:
  assumes "knowsDetailCache_Get cch0 t1 key = (None, cch)"
    and "0 < maxEntries cch0" and "t3 \<le> t2 + ttl cch0"
  shows "knowsDetailCache_Get (knowsDetailCache_Set cch t2 key data) t3 key
           = (Some data, knowsDetailCache_Set cch t2 key data)"
  using Get_keeps_settings [OF assms(1)] assms(2,3) by (intro Set_then_Get) simp_all

lemma Set_stores:
  "0 < maxEntries c \<Longrightarrow>
     map_of (entries (knowsDetailCache_Set c now key v)) key
       = Some \<lparr>val = v, expiresAt = now + ttl c\<rparr>"
  by (auto simp: knowsDetailCache_Set_def update_conv' split: prod.splits)

lemma getPaperEN_fetch_then_cached:
  assumes pos: "0 < maxEntries (cache c)" and fresh: "tGet' \<le> tSet + ttl (cache c)"
    and tr: "tr \<in> {None, Some False}"
    and miss: "fst (knowsDetailCache_Get (cache c) tGet (''PAPER:'' @ evidenceID @ '':false''))
                 = None"
    and post: "post ''/knows/evidence/get_paper_en''
                 ([(''evidence_id'', GString evidenceID)] @
                  (case tr of None \<Rightarrow> [] | Some b \<Rightarrow> [(''translate_to_chinese'', GBool b)]))
                 = Inr data"
  shows "\<exists>c'. getPaperEN c tGet tSet post evidenceID tr
             = (Inr data, c',
                [(''/knows/evidence/get_paper_en'',
                  [(''evidence_id'', GString evidenceID)] @
                  (case tr of None \<Rightarrow> [] | Some b \<Rightarrow> [(''translate_to_chinese'', GBool b)]))])
          \<and> map_of (entries (cache c')) (''PAPER:'' @ evidenceID @ '':false'')
              = Some \<lparr>val = data, expiresAt = tSet + ttl (cache c)\<rparr>
          \<and> getPaperEN c' tGet' tSet' post' evidenceID None = (Inr data, c', [])
          \<and> getPaperEN c' tGet' tSet' post' evidenceID (Some False) = (Inr data, c', [])"
proof -
  let ?key = "''PAPER:'' @ evidenceID @ '':false''"
  obtain cch where get: "knowsDetailCache_Get (cache c) tGet ?key = (None, cch)"
    using miss by (cases "knowsDetailCache_Get (cache c) tGet ?key") simp
  let ?c' = "c\<lparr>cache := knowsDetailCache_Set cch tSet ?key data\<rparr>"
  have keep: "maxEntries cch = maxEntries (cache c) \<and> ttl cch = ttl (cache c)"
    using get by (rule Get_keeps_settings)
  have first: "getPaperEN c tGet tSet post evidenceID tr
             = (Inr data, ?c',
                [(''/knows/evidence/get_paper_en'',
                  [(''evidence_id'', GString evidenceID)] @
                  (case tr of None \<Rightarrow> [] | Some b \<Rightarrow> [(''translate_to_chinese'', GBool b)]))])"
    using tr get post by (auto simp: getPaperEN_def Let_def formatBool_def)
  have stored: "map_of (entries (cache ?c')) ?key
                  = Some \<lparr>val = data, expiresAt = tSet + ttl (cache c)\<rparr>"
    using keep pos by (simp add: Set_stores)
  have again: "knowsDetailCache_Get (cache ?c') tGet' ?key = (Some data, cache ?c')"
    using Set_after_miss_then_Get [OF get pos fresh] by simp
  have absent: "getPaperEN ?c' tGet' tSet' post' evidenceID None = (Inr data, ?c', [])"
    using again by (simp add: getPaperEN_def Let_def formatBool_def)
  have false: "getPaperEN ?c' tGet' tSet' post' evidenceID (Some False) = (Inr data, ?c', [])"
    using again by (simp add: getPaperEN_def Let_def formatBool_def)
  from first stored absent false show ?thesis by blast
qed

lemma getGuide_fetch_then_cached:
  assumes pos: "0 < maxEntries (cache c)" and fresh: "tGet' \<le> tSet + ttl (cache c)"
    and tr: "tr \<in> {None, Some False}"
    and miss: "fst (knowsDetailCache_Get (cache c) tGet (''GUIDE:'' @ evidenceID @ '':false''))
                 = None"
    and post: "post ''/knows/evidence/get_guide''
                 ([(''evidence_id'', GString evidenceID)] @
                  (case tr of None \<Rightarrow> [] | Some b \<Rightarrow> [(''translate_to_chinese'', GBool b)]))
                 = Inr data"
  shows "\<exists>c'. getGuide c tGet tSet post evidenceID tr
             = (Inr data, c',
                [(''/knows/evidence/get_guide'',
                  [(''evidence_id'', GString evidenceID)] @
                  (case tr of None \<Rightarrow> [] | Some b \<Rightarrow> [(''translate_to_chinese'', GBool b)]))])
          \<and> map_of (entries (cache c')) (''GUIDE:'' @ evidenceID @ '':false'')
              = Some \<lparr>val = data, expiresAt = tSet + ttl (cache c)\<rparr>
          \<and> getGuide c' tGet' tSet' post' evidenceID None = (Inr data, c', [])
          \<and> getGuide c' tGet' tSet' post' evidenceID (Some False) = (Inr data, c', [])"
proof -
  let ?key = "''GUIDE:'' @ evidenceID @ '':false''"
  obtain cch where get: "knowsDetailCache_Get (cache c) tGet ?key = (None, cch)"
    using miss by (cases "knowsDetailCache_Get (cache c) tGet ?key") simp
  let ?c' = "c\<lparr>cache := knowsDetailCache_Set cch tSet ?key data\<rparr>"
  have keep: "maxEntries cch = maxEntries (cache c) \<and> ttl cch = ttl (cache c)"
    using get by (rule Get_keeps_settings)
  have first: "getGuide c tGet tSet post evidenceID tr
             = (Inr data, ?c',
                [(''/knows/evidence/get_guide'',
                  [(''evidence_id'', GString evidenceID)] @
                  (case tr of None \<Rightarrow> [] | Some b \<Rightarrow> [(''translate_to_chinese'', GBool b)]))])"
    using tr get post by (auto simp: getGuide_def Let_def formatBool_def)
  have stored: "map_of (entries (cache ?c')) ?key
                  = Some \<lparr>val = data, expiresAt = tSet + ttl (cache c)\<rparr>"
    using keep pos by (simp add: Set_stores)
  have again: "knowsDetailCache_Get (cache ?c') tGet' ?key = (Some data, cache ?c')"
    using Set_after_miss_then_Get [OF get pos fresh] by simp
  have absent: "getGuide ?c' tGet' tSet' post' evidenceID None = (Inr data, ?c', [])"
    using again by (simp add: getGuide_def Let_def formatBool_def)
  have false: "getGuide ?c' tGet' tSet' post' evidenceID (Some False) = (Inr data, ?c', [])"
    using again by (simp add: getGuide_def Let_def formatBool_def)
  from first stored absent false show ?thesis by blast
qed

lemma getMeeting_fetch_then_cached:
  assumes pos: "0 < maxEntries (cache c)" and fresh: "tGet' \<le> tSet + ttl (cache c)"
    and tr: "tr \<in> {None, Some False}"
    and miss: "fst (knowsDetailCache_Get (cache c) tGet (''MEETING:'' @ evidenceID @ '':false''))
                 = None"
    and post: "post ''/knows/evidence/get_meeting''
                 ([(''evidence_id'', GString evidenceID)] @
                  (case tr of None \<Rightarrow> [] | Some b \<Rightarrow> [(''translate_to_chinese'', GBool b)]))
                 = Inr data"
  shows "\<exists>c'. getMeeting c tGet tSet post evidenceID tr
             = (Inr data, c',
                [(''/knows/evidence/get_meeting'',
                  [(''evidence_id'', GString evidenceID)] @
                  (case tr of None \<Rightarrow> [] | Some b \<Rightarrow> [(''translate_to_chinese'', GBool b)]))])
          \<and> map_of (entries (cache c')) (''MEETING:'' @ evidenceID @ '':false'')
              = Some \<lparr>val = data, expiresAt = tSet + ttl (cache c)\<rparr>
          \<and> getMeeting c' tGet' tSet' post' evidenceID None = (Inr data, c', [])
          \<and> getMeeting c' tGet' tSet' post' evidenceID (Some False) = (Inr data, c', [])"
proof -
  let ?key = "''MEETING:'' @ evidenceID @ '':false''"
  obtain cch where get: "knowsDetailCache_Get (cache c) tGet ?key = (None, cch)"
    using miss by (cases "knowsDetailCache_Get (cache c) tGet ?key") simp
  let ?c' = "c\<lparr>cache := knowsDetailCache_Set cch tSet ?key data\<rparr>"
  have keep: "maxEntries cch = maxEntries (cache c) \<and> ttl cch = ttl (cache c)"
    using get by (rule Get_keeps_settings)
  have first: "getMeeting c tGet tSet post evidenceID tr
             = (Inr data, ?c',
                [(''/knows/evidence/get_meeting'',
                  [(''evidence_id'', GString evidenceID)] @
                  (case tr of None \<Rightarrow> [] | Some b \<Rightarrow> [(''translate_to_chinese'', GBool b)]))])"
    using tr get post by (auto simp: getMeeting_def Let_def formatBool_def)
  have stored: "map_of (entries (cache ?c')) ?key
                  = Some \<lparr>val = data, expiresAt = tSet + ttl (cache c)\<rparr>"
    using keep pos by (simp add: Set_stores)
  have again: "knowsDetailCache_Get (cache ?c') tGet' ?key = (Some data, cache ?c')"
    using Set_after_miss_then_Get [OF get pos fresh] by simp
  have absent: "getMeeting ?c' tGet' tSet' post' evidenceID None = (Inr data, ?c', [])"
    using again by (simp add: getMeeting_def Let_def formatBool_def)
  have false: "getMeeting ?c' tGet' tSet' post' evidenceID (Some False) = (Inr data, ?c', [])"
    using again by (simp add: getMeeting_def Let_def formatBool_def)
  from first stored absent false show ?thesis by blast
qed

text \<open>
  C9. For each of the paper-EN, guide and meeting lookups, on a cache that stores
  (\<open>maxEntries > 0\<close>): when the key \<^verbatim>\<open>KIND:id:false\<close> is not served by the cache and the
  request succeeds, a lookup with the translation flag absent posts one request, to the
  path of that lookup, whose payload is the field \<^verbatim>\<open>evidence_id\<close> alone, and a lookup
  with the flag false posts one request whose payload is \<^verbatim>\<open>evidence_id\<close> followed by
  \<^verbatim>\<open>translate_to_chinese\<close> with the value false. Either lookup returns the data received
  and stores it under the key \<^verbatim>\<open>KIND:id:false\<close>, with the expiry one time-to-live after
  the clock reading of the store. A later lookup of the same identifier, with the flag
  absent or with the flag false, made before the clock passes that expiry, returns the
  same data, posts nothing and leaves the client as it was.
\<close>

theorem translate_absent_or_false_same_entry:
  assumes "0 < maxEntries (cache c)" and "tGet' \<le> tSet + ttl (cache c)"
  shows
    "(fst (knowsDetailCache_Get (cache c) tGet (''PAPER:'' @ evidenceID @ '':false'')) = None
      \<and> post ''/knows/evidence/get_paper_en''
            [(''evidence_id'', GString evidenceID)]
          = Inr data \<longrightarrow>
      (\<exists>c'. getPaperEN c tGet tSet post evidenceID None
               = (Inr data, c',
                  [(''/knows/evidence/get_paper_en'',
                    [(''evidence_id'', GString evidenceID)])])
          \<and> map_of (entries (cache c')) (''PAPER:'' @ evidenceID @ '':false'')
              = Some \<lparr>val = data, expiresAt = tSet + ttl (cache c)\<rparr>
          \<and> getPaperEN c' tGet' tSet' post' evidenceID None = (Inr data, c', [])
          \<and> getPaperEN c' tGet' tSet' post' evidenceID (Some False) = (Inr data, c', [])))
     \<and> (fst (knowsDetailCache_Get (cache c) tGet (''PAPER:'' @ evidenceID @ '':false'')) = None
      \<and> post ''/knows/evidence/get_paper_en''
            [(''evidence_id'', GString evidenceID),
             (''translate_to_chinese'', GBool False)]
          = Inr data \<longrightarrow>
      (\<exists>c'. getPaperEN c tGet tSet post evidenceID (Some False)
               = (Inr data, c',
                  [(''/knows/evidence/get_paper_en'',
                    [(''evidence_id'', GString evidenceID),
                     (''translate_to_chinese'', GBool False)])])
          \<and> map_of (entries (cache c')) (''PAPER:'' @ evidenceID @ '':false'')
              = Some \<lparr>val = data, expiresAt = tSet + ttl (cache c)\<rparr>
          \<and> getPaperEN c' tGet' tSet' post' evidenceID None = (Inr data, c', [])
          \<and> getPaperEN c' tGet' tSet' post' evidenceID (Some False) = (Inr data, c', [])))
     \<and> (fst (knowsDetailCache_Get (cache c) tGet (''GUIDE:'' @ evidenceID @ '':false'')) = None
      \<and> post ''/knows/evidence/get_guide''
            [(''evidence_id'', GString evidenceID)]
          = Inr data \<longrightarrow>
      (\<exists>c'. getGuide c tGet tSet post evidenceID None
               = (Inr data, c',
                  [(''/knows/evidence/get_guide'',
                    [(''evidence_id'', GString evidenceID)])])
          \<and> map_of (entries (cache c')) (''GUIDE:'' @ evidenceID @ '':false'')
              = Some \<lparr>val = data, expiresAt = tSet + ttl (cache c)\<rparr>
          \<and> getGuide c' tGet' tSet' post' evidenceID None = (Inr data, c', [])
          \<and> getGuide c' tGet' tSet' post' evidenceID (Some False) = (Inr data, c', [])))
     \<and> (fst (knowsDetailCache_Get (cache c) tGet (''GUIDE:'' @ evidenceID @ '':false'')) = None
      \<and> post ''/knows/evidence/get_guide''
            [(''evidence_id'', GString evidenceID),
             (''translate_to_chinese'', GBool False)]
          = Inr data \<longrightarrow>
      (\<exists>c'. getGuide c tGet tSet post evidenceID (Some False)
               = (Inr data, c',
                  [(''/knows/evidence/get_guide'',
                    [(''evidence_id'', GString evidenceID),
                     (''translate_to_chinese'', GBool False)])])
          \<and> map_of (entries (cache c')) (''GUIDE:'' @ evidenceID @ '':false'')
              = Some \<lparr>val = data, expiresAt = tSet + ttl (cache c)\<rparr>
          \<and> getGuide c' tGet' tSet' post' evidenceID None = (Inr data, c', [])
          \<and> getGuide c' tGet' tSet' post' evidenceID (Some False) = (Inr data, c', [])))
     \<and> (fst (knowsDetailCache_Get (cache c) tGet (''MEETING:'' @ evidenceID @ '':false'')) = None
      \<and> post ''/knows/evidence/get_meeting''
            [(''evidence_id'', GString evidenceID)]
          = Inr data \<longrightarrow>
      (\<exists>c'. getMeeting c tGet tSet post evidenceID None
               = (Inr data, c',
                  [(''/knows/evidence/get_meeting'',
                    [(''evidence_id'', GString evidenceID)])])
          \<and> map_of (entries (cache c')) (''MEETING:'' @ evidenceID @ '':false'')
              = Some \<lparr>val = data, expiresAt = tSet + ttl (cache c)\<rparr>
          \<and> getMeeting c' tGet' tSet' post' evidenceID None = (Inr data, c', [])
          \<and> getMeeting c' tGet' tSet' post' evidenceID (Some False) = (Inr data, c', [])))
     \<and> (fst (knowsDetailCache_Get (cache c) tGet (''MEETING:'' @ evidenceID @ '':false'')) = None
      \<and> post ''/knows/evidence/get_meeting''
            [(''evidence_id'', GString evidenceID),
             (''translate_to_chinese'', GBool False)]
          = Inr data \<longrightarrow>
      (\<exists>c'. getMeeting c tGet tSet post evidenceID (Some False)
               = (Inr data, c',
                  [(''/knows/evidence/get_meeting'',
                    [(''evidence_id'', GString evidenceID),
                     (''translate_to_chinese'', GBool False)])])
          \<and> map_of (entries (cache c')) (''MEETING:'' @ evidenceID @ '':false'')
              = Some \<lparr>val = data, expiresAt = tSet + ttl (cache c)\<rparr>
          \<and> getMeeting c' tGet' tSet' post' evidenceID None = (Inr data, c', [])
          \<and> getMeeting c' tGet' tSet' post' evidenceID (Some False) = (Inr data, c', [])))"
proof -
  have n: "None \<in> {None, Some False}" and f: "Some False \<in> {None, Some False}"
    by simp_all
  have ka: "(fst (knowsDetailCache_Get (cache c) tGet (''PAPER:'' @ evidenceID @ '':false'')) = None
        \<and> post ''/knows/evidence/get_paper_en''
            [(''evidence_id'', GString evidenceID)]
          = Inr data \<longrightarrow>
        (\<exists>c'. getPaperEN c tGet tSet post evidenceID None
                 = (Inr data, c',
                  [(''/knows/evidence/get_paper_en'',
                    [(''evidence_id'', GString evidenceID)])])
            \<and> map_of (entries (cache c')) (''PAPER:'' @ evidenceID @ '':false'')
                = Some \<lparr>val = data, expiresAt = tSet + ttl (cache c)\<rparr>
            \<and> getPaperEN c' tGet' tSet' post' evidenceID None = (Inr data, c', [])
            \<and> getPaperEN c' tGet' tSet' post' evidenceID (Some False) = (Inr data, c', [])))"
    using getPaperEN_fetch_then_cached [OF assms n, of tGet evidenceID post data tSet' post']
    by simp
  have kb: "(fst (knowsDetailCache_Get (cache c) tGet (''PAPER:'' @ evidenceID @ '':false'')) = None
        \<and> post ''/knows/evidence/get_paper_en''
            [(''evidence_id'', GString evidenceID),
             (''translate_to_chinese'', GBool False)]
          = Inr data \<longrightarrow>
        (\<exists>c'. getPaperEN c tGet tSet post evidenceID (Some False)
                 = (Inr data, c',
                  [(''/knows/evidence/get_paper_en'',
                    [(''evidence_id'', GString evidenceID),
                     (''translate_to_chinese'', GBool False)])])
            \<and> map_of (entries (cache c')) (''PAPER:'' @ evidenceID @ '':false'')
                = Some \<lparr>val = data, expiresAt = tSet + ttl (cache c)\<rparr>
            \<and> getPaperEN c' tGet' tSet' post' evidenceID None = (Inr data, c', [])
            \<and> getPaperEN c' tGet' tSet' post' evidenceID (Some False) = (Inr data, c', [])))"
    using getPaperEN_fetch_then_cached [OF assms f, of tGet evidenceID post data tSet' post']
    by simp
  have kc: "(fst (knowsDetailCache_Get (cache c) tGet (''GUIDE:'' @ evidenceID @ '':false'')) = None
        \<and> post ''/knows/evidence/get_guide''
            [(''evidence_id'', GString evidenceID)]
          = Inr data \<longrightarrow>
        (\<exists>c'. getGuide c tGet tSet post evidenceID None
                 = (Inr data, c',
                  [(''/knows/evidence/get_guide'',
                    [(''evidence_id'', GString evidenceID)])])
            \<and> map_of (entries (cache c')) (''GUIDE:'' @ evidenceID @ '':false'')
                = Some \<lparr>val = data, expiresAt = tSet + ttl (cache c)\<rparr>
            \<and> getGuide c' tGet' tSet' post' evidenceID None = (Inr data, c', [])
            \<and> getGuide c' tGet' tSet' post' evidenceID (Some False) = (Inr data, c', [])))"
    using getGuide_fetch_then_cached [OF assms n, of tGet evidenceID post data tSet' post']
    by simp
  have kd: "(fst (knowsDetailCache_Get (cache c) tGet (''GUIDE:'' @ evidenceID @ '':false'')) = None
        \<and> post ''/knows/evidence/get_guide''
            [(''evidence_id'', GString evidenceID),
             (''translate_to_chinese'', GBool False)]
          = Inr data \<longrightarrow>
        (\<exists>c'. getGuide c tGet tSet post evidenceID (Some False)
                 = (Inr data, c',
                  [(''/knows/evidence/get_guide'',
                    [(''evidence_id'', GString evidenceID),
                     (''translate_to_chinese'', GBool False)])])
            \<and> map_of (entries (cache c')) (''GUIDE:'' @ evidenceID @ '':false'')
                = Some \<lparr>val = data, expiresAt = tSet + ttl (cache c)\<rparr>
            \<and> getGuide c' tGet' tSet' post' evidenceID None = (Inr data, c', [])
            \<and> getGuide c' tGet' tSet' post' evidenceID (Some False) = (Inr data, c', [])))"
    using getGuide_fetch_then_cached [OF assms f, of tGet evidenceID post data tSet' post']
    by simp
  have ke: "(fst (knowsDetailCache_Get (cache c) tGet (''MEETING:'' @ evidenceID @ '':false'')) = None
        \<and> post ''/knows/evidence/get_meeting''
            [(''evidence_id'', GString evidenceID)]
          = Inr data \<longrightarrow>
        (\<exists>c'. getMeeting c tGet tSet post evidenceID None
                 = (Inr data, c',
                  [(''/knows/evidence/get_meeting'',
                    [(''evidence_id'', GString evidenceID)])])
            \<and> map_of (entries (cache c')) (''MEETING:'' @ evidenceID @ '':false'')
                = Some \<lparr>val = data, expiresAt = tSet + ttl (cache c)\<rparr>
            \<and> getMeeting c' tGet' tSet' post' evidenceID None = (Inr data, c', [])
            \<and> getMeeting c' tGet' tSet' post' evidenceID (Some False) = (Inr data, c', [])))"
    using getMeeting_fetch_then_cached [OF assms n, of tGet evidenceID post data tSet' post']
    by simp
  have kf: "(fst (knowsDetailCache_Get (cache c) tGet (''MEETING:'' @ evidenceID @ '':false'')) = None
        \<and> post ''/knows/evidence/get_meeting''
            [(''evidence_id'', GString evidenceID),
             (''translate_to_chinese'', GBool False)]
          = Inr data \<longrightarrow>
        (\<exists>c'. getMeeting c tGet tSet post evidenceID (Some False)
                 = (Inr data, c',
                  [(''/knows/evidence/get_meeting'',
                    [(''evidence_id'', GString evidenceID),
                     (''translate_to_chinese'', GBool False)])])
            \<and> map_of (entries (cache c')) (''MEETING:'' @ evidenceID @ '':false'')
                = Some \<lparr>val = data, expiresAt = tSet + ttl (cache c)\<rparr>
            \<and> getMeeting c' tGet' tSet' post' evidenceID None = (Inr data, c', [])
            \<and> getMeeting c' tGet' tSet' post' evidenceID (Some False) = (Inr data, c', [])))"
    using getMeeting_fetch_then_cached [OF assms f, of tGet evidenceID post data tSet' post']
    by simp
  from ka kb kc kd ke kf show ?thesis by (intro conjI)
qed

theorem translate_absent_or_false_same_entry_witness:
  "getPaperEN
     \<lparr>baseURL = ''http://h'', apiKey = ''key'', httpTimeout = 1000000000, maxRetries = 2,
      retryBackoff = 500000000,
      cache = \<lparr>entries = [], order = [], ttl = 10, maxEntries = 2\<rparr>\<rparr>
     0 1
     (\<lambda>path payload.
        if path = ''/knows/evidence/get_paper_en'' \<and> payload = [(''evidence_id'', GString ''e1'')]
        then Inr (GString ''paper'')
        else if path = ''/knows/evidence/get_guide''
                \<and> payload = [(''evidence_id'', GString ''e1''),
                             (''translate_to_chinese'', GBool False)]
        then Inr (GString ''guide'')
        else if path = ''/knows/evidence/get_meeting''
                \<and> payload = [(''evidence_id'', GString ''e1'')]
        then Inr (GString ''meeting'')
        else Inl (RequestGaveUp path))
     ''e1'' None
   = (Inr (GString ''paper''),
      \<lparr>baseURL = ''http://h'', apiKey = ''key'', httpTimeout = 1000000000, maxRetries = 2,
       retryBackoff = 500000000,
       cache = \<lparr>entries = [(''PAPER:e1:false'', \<lparr>val = GString ''paper'', expiresAt = 11\<rparr>)],
                order = [''PAPER:e1:false''], ttl = 10, maxEntries = 2\<rparr>\<rparr>,
      [(''/knows/evidence/get_paper_en'',
        [(''evidence_id'', GString ''e1'')])])
   \<and> getPaperEN
     \<lparr>baseURL = ''http://h'', apiKey = ''key'', httpTimeout = 1000000000, maxRetries = 2,
      retryBackoff = 500000000,
      cache = \<lparr>entries = [(''PAPER:e1:false'', \<lparr>val = GString ''paper'', expiresAt = 11\<rparr>)],
               order = [''PAPER:e1:false''], ttl = 10, maxEntries = 2\<rparr>\<rparr>
     5 6 (\<lambda>path payload. Inl (RequestGaveUp path)) ''e1'' (Some False)
   = (Inr (GString ''paper''),
      \<lparr>baseURL = ''http://h'', apiKey = ''key'', httpTimeout = 1000000000, maxRetries = 2,
       retryBackoff = 500000000,
       cache = \<lparr>entries = [(''PAPER:e1:false'', \<lparr>val = GString ''paper'', expiresAt = 11\<rparr>)],
                order = [''PAPER:e1:false''], ttl = 10, maxEntries = 2\<rparr>\<rparr>,
      [])
   \<and> getGuide
     \<lparr>baseURL = ''http://h'', apiKey = ''key'', httpTimeout = 1000000000, maxRetries = 2,
      retryBackoff = 500000000,
      cache = \<lparr>entries = [], order = [], ttl = 10, maxEntries = 2\<rparr>\<rparr>
     0 1
     (\<lambda>path payload.
        if path = ''/knows/evidence/get_paper_en'' \<and> payload = [(''evidence_id'', GString ''e1'')]
        then Inr (GString ''paper'')
        else if path = ''/knows/evidence/get_guide''
                \<and> payload = [(''evidence_id'', GString ''e1''),
                             (''translate_to_chinese'', GBool False)]
        then Inr (GString ''guide'')
        else if path = ''/knows/evidence/get_meeting''
                \<and> payload = [(''evidence_id'', GString ''e1'')]
        then Inr (GString ''meeting'')
        else Inl (RequestGaveUp path))
     ''e1'' (Some False)
   = (Inr (GString ''guide''),
      \<lparr>baseURL = ''http://h'', apiKey = ''key'', httpTimeout = 1000000000, maxRetries = 2,
       retryBackoff = 500000000,
       cache = \<lparr>entries = [(''GUIDE:e1:false'', \<lparr>val = GString ''guide'', expiresAt = 11\<rparr>)],
                order = [''GUIDE:e1:false''], ttl = 10, maxEntries = 2\<rparr>\<rparr>,
      [(''/knows/evidence/get_guide'',
        [(''evidence_id'', GString ''e1''), (''translate_to_chinese'', GBool False)])])
   \<and> getGuide
     \<lparr>baseURL = ''http://h'', apiKey = ''key'', httpTimeout = 1000000000, maxRetries = 2,
      retryBackoff = 500000000,
      cache = \<lparr>entries = [(''GUIDE:e1:false'', \<lparr>val = GString ''guide'', expiresAt = 11\<rparr>)],
               order = [''GUIDE:e1:false''], ttl = 10, maxEntries = 2\<rparr>\<rparr>
     5 6 (\<lambda>path payload. Inl (RequestGaveUp path)) ''e1'' None
   = (Inr (GString ''guide''),
      \<lparr>baseURL = ''http://h'', apiKey = ''key'', httpTimeout = 1000000000, maxRetries = 2,
       retryBackoff = 500000000,
       cache = \<lparr>entries = [(''GUIDE:e1:false'', \<lparr>val = GString ''guide'', expiresAt = 11\<rparr>)],
                order = [''GUIDE:e1:false''], ttl = 10, maxEntries = 2\<rparr>\<rparr>,
      [])
   \<and> getMeeting
     \<lparr>baseURL = ''http://h'', apiKey = ''key'', httpTimeout = 1000000000, maxRetries = 2,
      retryBackoff = 500000000,
      cache = \<lparr>entries = [], order = [], ttl = 10, maxEntries = 2\<rparr>\<rparr>
     0 1
     (\<lambda>path payload.
        if path = ''/knows/evidence/get_paper_en'' \<and> payload = [(''evidence_id'', GString ''e1'')]
        then Inr (GString ''paper'')
        else if path = ''/knows/evidence/get_guide''
                \<and> payload = [(''evidence_id'', GString ''e1''),
                             (''translate_to_chinese'', GBool False)]
        then Inr (GString ''guide'')
        else if path = ''/knows/evidence/get_meeting''
                \<and> payload = [(''evidence_id'', GString ''e1'')]
        then Inr (GString ''meeting'')
        else Inl (RequestGaveUp path))
     ''e1'' None
   = (Inr (GString ''meeting''),
      \<lparr>baseURL = ''http://h'', apiKey = ''key'', httpTimeout = 1000000000, maxRetries = 2,
       retryBackoff = 500000000,
       cache = \<lparr>entries = [(''MEETING:e1:false'', \<lparr>val = GString ''meeting'', expiresAt = 11\<rparr>)],
                order = [''MEETING:e1:false''], ttl = 10, maxEntries = 2\<rparr>\<rparr>,
      [(''/knows/evidence/get_meeting'',
        [(''evidence_id'', GString ''e1'')])])
   \<and> getMeeting
     \<lparr>baseURL = ''http://h'', apiKey = ''key'', httpTimeout = 1000000000, maxRetries = 2,
      retryBackoff = 500000000,
      cache = \<lparr>entries = [(''MEETING:e1:false'', \<lparr>val = GString ''meeting'', expiresAt = 11\<rparr>)],
               order = [''MEETING:e1:false''], ttl = 10, maxEntries = 2\<rparr>\<rparr>
     5 6 (\<lambda>path payload. Inl (RequestGaveUp path)) ''e1'' (Some False)
   = (Inr (GString ''meeting''),
      \<lparr>baseURL = ''http://h'', apiKey = ''key'', httpTimeout = 1000000000, maxRetries = 2,
       retryBackoff = 500000000,
       cache = \<lparr>entries = [(''MEETING:e1:false'', \<lparr>val = GString ''meeting'', expiresAt = 11\<rparr>)],
                order = [''MEETING:e1:false''], ttl = 10, maxEntries = 2\<rparr>\<rparr>,
      [])"
proof -
  let ?c = "\<lparr>baseURL = ''http://h'', apiKey = ''key'', httpTimeout = 1000000000, maxRetries = 2,
      retryBackoff = 500000000,
      cache = \<lparr>entries = [], order = [], ttl = 10, maxEntries = 2\<rparr>\<rparr>"
  let ?post = "(\<lambda>path payload.
        if path = ''/knows/evidence/get_paper_en'' \<and> payload = [(''evidence_id'', GString ''e1'')]
        then Inr (GString ''paper'')
        else if path = ''/knows/evidence/get_guide''
                \<and> payload = [(''evidence_id'', GString ''e1''),
                             (''translate_to_chinese'', GBool False)]
        then Inr (GString ''guide'')
        else if path = ''/knows/evidence/get_meeting''
                \<and> payload = [(''evidence_id'', GString ''e1'')]
        then Inr (GString ''meeting'')
        else Inl (RequestGaveUp path))
      :: string \<Rightarrow> (string \<times> gvalue) list \<Rightarrow> knows_error + gvalue"
  let ?fail = "(\<lambda>path payload. Inl (RequestGaveUp path))
      :: string \<Rightarrow> (string \<times> gvalue) list \<Rightarrow> knows_error + gvalue"
  have pos: "0 < maxEntries (cache ?c)" and fresh: "(5::int) \<le> 1 + ttl (cache ?c)"
    by simp_all
  note inst = translate_absent_or_false_same_entry [OF pos fresh, where tGet = 0
      and evidenceID = "''e1''" and post = ?post and tSet' = 6 and post' = ?fail]
  let ?cpaper = "\<lparr>baseURL = ''http://h'', apiKey = ''key'', httpTimeout = 1000000000, maxRetries = 2,
      retryBackoff = 500000000,
      cache = \<lparr>entries = [(''PAPER:e1:false'', \<lparr>val = GString ''paper'', expiresAt = 11\<rparr>)],
               order = [''PAPER:e1:false''], ttl = 10, maxEntries = 2\<rparr>\<rparr>"
  have first_paper: "getPaperEN ?c 0 1 ?post ''e1'' None
      = (Inr (GString ''paper''), ?cpaper, [(''/knows/evidence/get_paper_en'', [(''evidence_id'', GString ''e1'')])])"
    by (simp add: getPaperEN_def formatBool_def Let_def knowsDetailCache_Get_def
        knowsDetailCache_Set_def)
  have "fst (knowsDetailCache_Get (cache ?c) 0 (''PAPER:'' @ ''e1'' @ '':false'')) = None
      \<and> ?post ''/knows/evidence/get_paper_en'' [(''evidence_id'', GString ''e1'')] = Inr (GString ''paper'')"
    by (simp add: knowsDetailCache_Get_def)
  with inst [where data = "GString ''paper''", THEN conjunct1]
  obtain cpaper where
    a_paper: "getPaperEN ?c 0 1 ?post ''e1'' None
      = (Inr (GString ''paper''), cpaper, [(''/knows/evidence/get_paper_en'', [(''evidence_id'', GString ''e1'')])])"
    and b_paper: "getPaperEN cpaper 5 6 ?fail ''e1'' (Some False) = (Inr (GString ''paper''), cpaper, [])"
    by blast
  from a_paper first_paper have "cpaper = ?cpaper" by simp
  with b_paper have second_paper:
    "getPaperEN ?cpaper 5 6 ?fail ''e1'' (Some False) = (Inr (GString ''paper''), ?cpaper, [])"
    by simp
  let ?cguide = "\<lparr>baseURL = ''http://h'', apiKey = ''key'', httpTimeout = 1000000000, maxRetries = 2,
      retryBackoff = 500000000,
      cache = \<lparr>entries = [(''GUIDE:e1:false'', \<lparr>val = GString ''guide'', expiresAt = 11\<rparr>)],
               order = [''GUIDE:e1:false''], ttl = 10, maxEntries = 2\<rparr>\<rparr>"
  have first_guide: "getGuide ?c 0 1 ?post ''e1'' (Some False)
      = (Inr (GString ''guide''), ?cguide, [(''/knows/evidence/get_guide'', [(''evidence_id'', GString ''e1''), (''translate_to_chinese'', GBool False)])])"
    by (simp add: getGuide_def formatBool_def Let_def knowsDetailCache_Get_def
        knowsDetailCache_Set_def)
  have "fst (knowsDetailCache_Get (cache ?c) 0 (''GUIDE:'' @ ''e1'' @ '':false'')) = None
      \<and> ?post ''/knows/evidence/get_guide'' [(''evidence_id'', GString ''e1''), (''translate_to_chinese'', GBool False)] = Inr (GString ''guide'')"
    by (simp add: knowsDetailCache_Get_def)
  with inst [where data = "GString ''guide''", THEN conjunct2, THEN conjunct2, THEN conjunct2, THEN conjunct1]
  obtain cguide where
    a_guide: "getGuide ?c 0 1 ?post ''e1'' (Some False)
      = (Inr (GString ''guide''), cguide, [(''/knows/evidence/get_guide'', [(''evidence_id'', GString ''e1''), (''translate_to_chinese'', GBool False)])])"
    and b_guide: "getGuide cguide 5 6 ?fail ''e1'' None = (Inr (GString ''guide''), cguide, [])"
    by blast
  from a_guide first_guide have "cguide = ?cguide" by simp
  with b_guide have second_guide:
    "getGuide ?cguide 5 6 ?fail ''e1'' None = (Inr (GString ''guide''), ?cguide, [])"
    by simp
  let ?cmeeting = "\<lparr>baseURL = ''http://h'', apiKey = ''key'', httpTimeout = 1000000000, maxRetries = 2,
      retryBackoff = 500000000,
      cache = \<lparr>entries = [(''MEETING:e1:false'', \<lparr>val = GString ''meeting'', expiresAt = 11\<rparr>)],
               order = [''MEETING:e1:false''], ttl = 10, maxEntries = 2\<rparr>\<rparr>"
  have first_meeting: "getMeeting ?c 0 1 ?post ''e1'' None
      = (Inr (GString ''meeting''), ?cmeeting, [(''/knows/evidence/get_meeting'', [(''evidence_id'', GString ''e1'')])])"
    by (simp add: getMeeting_def formatBool_def Let_def knowsDetailCache_Get_def
        knowsDetailCache_Set_def)
  have "fst (knowsDetailCache_Get (cache ?c) 0 (''MEETING:'' @ ''e1'' @ '':false'')) = None
      \<and> ?post ''/knows/evidence/get_meeting'' [(''evidence_id'', GString ''e1'')] = Inr (GString ''meeting'')"
    by (simp add: knowsDetailCache_Get_def)
  with inst [where data = "GString ''meeting''", THEN conjunct2, THEN conjunct2, THEN conjunct2, THEN conjunct2, THEN conjunct1]
  obtain cmeeting where
    a_meeting: "getMeeting ?c 0 1 ?post ''e1'' None
      = (Inr (GString ''meeting''), cmeeting, [(''/knows/evidence/get_meeting'', [(''evidence_id'', GString ''e1'')])])"
    and b_meeting: "getMeeting cmeeting 5 6 ?fail ''e1'' (Some False) = (Inr (GString ''meeting''), cmeeting, [])"
    by blast
  from a_meeting first_meeting have "cmeeting = ?cmeeting" by simp
  with b_meeting have second_meeting:
    "getMeeting ?cmeeting 5 6 ?fail ''e1'' (Some False) = (Inr (GString ''meeting''), ?cmeeting, [])"
    by simp
  from first_paper second_paper first_guide second_guide first_meeting second_meeting show ?thesis by (intro conjI)
qed

end
